theory Spec2Isabelle
  imports Main
begin

section \<open>The reliable query engine (\<open>query_reliable\<close>)\<close>

text \<open>
  A dispatched OSC message: its address and its arguments, each argument given by the
  text that Python's \<open>str\<close> produces for it (the handler only ever reads
  \<open>str(args[0])\<close>).
\<close>

type_synonym msg = "string \<times> string list"

text \<open>
  The dictionary \<open>res\<close>: a key that is present maps to \<open>None\<close> (no reply yet) or to
  the reply text. \<open>r k = None\<close> is a missing key, \<open>r k = Some None\<close> the Python value
  \<open>None\<close> stored under \<open>k\<close>.
\<close>

type_synonym replies = "string \<rightharpoonup> string option"

text \<open>
  The two ways a run can end without a result: the socket cannot be created, or an
  integer conversion raises \<open>ValueError\<close> where nothing catches it.
\<close>

datatype error = TransportSetupFailed | ValueError

text \<open>
  What the network does during one call. \<open>bind_ok\<close> says whether the UDP server socket
  could be created (the only failure of the engine, \<open>TransportSetupFailed\<close>). \<open>incoming i k\<close> is the sequence of
  messages that \<open>server.handle_request()\<close> dispatches during the receive window of
  attempt \<open>k\<close> of the batch that starts at list position \<open>i\<close>; the wall-clock timeout
  only decides how long that sequence is, so it is not a parameter of the model.
\<close>

record transport =
  bind_ok :: bool
  incoming :: "nat \<Rightarrow> nat \<Rightarrow> msg list"

text \<open>
  The variables shared by \<open>query_reliable\<close> and its handler. \<open>handled\<close> is not in the
  source: it logs every call of the handler in order, so that theorems can speak about
  what was received.
\<close>

record qstate =
  res :: replies
  pending :: "string set"
  handled :: "msg list"

definition BATCH_SIZE :: nat where
  "BATCH_SIZE = 1000"

text \<open>The text stored for a message: \<open>str(args[0]) if args else ""\<close>.\<close>

definition reply_text :: "msg \<Rightarrow> string" where
  "reply_text m = (case snd m of [] \<Rightarrow> [] | a # _ \<Rightarrow> a)"

definition h :: "qstate \<Rightarrow> msg \<Rightarrow> qstate" where
  "h st m =
     (let st' = st\<lparr>handled := handled st @ [m]\<rparr> in
      if fst m \<in> pending st
      then st'\<lparr>res := (res st)(fst m \<mapsto> Some (reply_text m)),
               pending := pending st - {fst m}\<rparr>
      else st')"

definition drain :: "msg list \<Rightarrow> qstate \<Rightarrow> qstate" where
  "drain ms st = foldl h st ms"

text \<open>
  The loop \<open>for attempt in range(attempts)\<close>: \<open>n\<close> attempts are left and \<open>k\<close> is the
  number of the current one. The datagrams sent to the device have no effect on the
  variables of the program and are left out.
\<close>

fun attempt_loop :: "(nat \<Rightarrow> msg list) \<Rightarrow> string list \<Rightarrow> nat \<Rightarrow> nat \<Rightarrow> qstate \<Rightarrow> qstate" where
  "attempt_loop inc batch 0 k st = st"
| "attempt_loop inc batch (Suc n) k st =
     (if pending st \<inter> set batch = {} then st
      else attempt_loop inc batch n (Suc k) (drain (inc k) st))"

function batch_loop :: "transport \<Rightarrow> string list \<Rightarrow> nat \<Rightarrow> nat \<Rightarrow> qstate \<Rightarrow> qstate" where
  "batch_loop tr addrs attempts i st =
     (if i < length addrs
      then batch_loop tr addrs attempts (i + BATCH_SIZE)
             (attempt_loop (incoming tr i) (take BATCH_SIZE (drop i addrs)) attempts 0 st)
      else st)"
  by pat_completeness auto
termination
  by (relation "measure (\<lambda>(tr, addrs, attempts, i, st). length addrs - i)")
     (auto simp: BATCH_SIZE_def)

definition query_init :: "string list \<Rightarrow> qstate" where
  "query_init addrs =
     \<lparr>res = (\<lambda>a. if a \<in> set addrs then Some None else None),
      pending = set addrs, handled = []\<rparr>"

definition query_run :: "transport \<Rightarrow> string list \<Rightarrow> nat \<Rightarrow> qstate" where
  "query_run tr addrs attempts = batch_loop tr addrs attempts 0 (query_init addrs)"

definition query_reliable :: "transport \<Rightarrow> string list \<Rightarrow> nat \<Rightarrow> error + replies" where
  "query_reliable tr addrs attempts =
     (if addrs = [] then Inr Map.empty
      else if \<not> bind_ok tr then Inl TransportSetupFailed
      else Inr (res (query_run tr addrs attempts)))"

text \<open>The handler calls of one run, in the order they happened.\<close>

definition query_log :: "transport \<Rightarrow> string list \<Rightarrow> nat \<Rightarrow> msg list" where
  "query_log tr addrs attempts = (if addrs = [] then [] else handled (query_run tr addrs attempts))"

text \<open>
  The invariant of a run over the address list \<open>addrs\<close>, relative to the log: the keys
  are the addresses, the pending set holds the addresses not yet seen in the log, and
  each key maps to the text of its first message in the log.
\<close>

definition first_reply :: "msg list \<Rightarrow> string \<Rightarrow> string option" where
  "first_reply ms a = map_option reply_text (find (\<lambda>m. fst m = a) ms)"

definition qinv :: "string list \<Rightarrow> qstate \<Rightarrow> bool" where
  "qinv addrs st \<longleftrightarrow>
     pending st = set addrs - fst ` set (handled st) \<and>
     res st = (\<lambda>a. if a \<in> set addrs then Some (first_reply (handled st) a) else None)"

text \<open>
  Two concrete networks for a run over the addresses \<open>/a\<close> and \<open>/b\<close>. In both the
  socket is created. \<open>net_dup\<close> delivers two replies for \<open>/a\<close> with different values in
  the first receive window and never anything for \<open>/b\<close>.
\<close>

definition net_dup :: transport where
  "net_dup = \<lparr>bind_ok = True,
               incoming = (\<lambda>i k. if i = 0 \<and> k = 0
                                  then [(''/a'', [''1'']), (''/a'', [''2''])] else [])\<rparr>"

text \<open>The last reply handled for an address, if any.\<close>

definition last_reply :: "msg list \<Rightarrow> string \<Rightarrow> string option" where
  "last_reply ms a = first_reply (rev ms) a"

text \<open>The result of a run at one address, with the failure of the run kept.\<close>

definition result_at :: "error + replies \<Rightarrow> string \<Rightarrow> error + string option option" where
  "result_at q a = (case q of Inl e \<Rightarrow> Inl e | Inr r \<Rightarrow> Inr (r a))"

section \<open>Python strings and integers\<close>

text \<open>
  Strings are lists of characters. The values handled here are OSC addresses and OSC
  string arguments, which are ASCII; case mapping and white space are those of ASCII.
  \<open>is_space\<close> is the white space of \<open>str.strip()\<close>.
\<close>

definition is_space :: "char \<Rightarrow> bool" where
  "is_space c \<longleftrightarrow> c \<in> set [CHR '' '', CHR 0x09, CHR 0x0A, CHR 0x0B, CHR 0x0C, CHR 0x0D,
                            CHR 0x1C, CHR 0x1D, CHR 0x1E, CHR 0x1F]"

text \<open>\<open>s.strip()\<close>\<close>

definition strip :: "string \<Rightarrow> string" where
  "strip s = rev (dropWhile is_space (rev (dropWhile is_space s)))"

definition upper_char :: "char \<Rightarrow> char" where
  "upper_char c = (case map_of (zip ''abcdefghijklmnopqrstuvwxyz'' ''ABCDEFGHIJKLMNOPQRSTUVWXYZ'') c
                   of Some u \<Rightarrow> u | None \<Rightarrow> c)"

definition lower_char :: "char \<Rightarrow> char" where
  "lower_char c = (case map_of (zip ''ABCDEFGHIJKLMNOPQRSTUVWXYZ'' ''abcdefghijklmnopqrstuvwxyz'') c
                   of Some l \<Rightarrow> l | None \<Rightarrow> c)"

definition upper :: "string \<Rightarrow> string" where
  "upper s = map upper_char s"

definition lower :: "string \<Rightarrow> string" where
  "lower s = map lower_char s"

text \<open>\<open>s.endswith(suf)\<close>\<close>

definition endswith :: "string \<Rightarrow> string \<Rightarrow> bool" where
  "endswith s suf \<longleftrightarrow> length suf \<le> length s \<and> drop (length s - length suf) s = suf"

text \<open>\<open>sub in s\<close> for strings\<close>

fun contains :: "string \<Rightarrow> string \<Rightarrow> bool" where
  "contains sub [] = (sub = [])"
| "contains sub (c # cs) = (take (length sub) (c # cs) = sub \<or> contains sub cs)"

text \<open>
  \<open>s.replace(old, new)\<close> for a non-empty \<open>old\<close> (the source never passes an empty
  one): the occurrences of \<open>old\<close> are replaced from the left, without overlap.
\<close>

function replace :: "string \<Rightarrow> string \<Rightarrow> string \<Rightarrow> string" where
  "replace old new s =
     (if s = [] \<or> old = [] then s
      else if take (length old) s = old then new @ replace old new (drop (length old) s)
      else hd s # replace old new (tl s))"
  by pat_completeness auto
termination
  by (relation "measure (\<lambda>(old, new, s). length s)") (auto simp: neq_Nil_conv)

declare replace.simps [simp del]

text \<open>\<open>str(n)\<close> for an integer, and the formats \<open>{n:02d}\<close> and \<open>{n:03d}\<close>\<close>

definition digit_char :: "nat \<Rightarrow> char" where
  "digit_char d = ''0123456789'' ! d"

function str_nat :: "nat \<Rightarrow> string" where
  "str_nat n = (if n < 10 then [digit_char n] else str_nat (n div 10) @ [digit_char (n mod 10)])"
  by pat_completeness auto
termination
  by (relation "measure id") auto

declare str_nat.simps [simp del]

definition str_int :: "int \<Rightarrow> string" where
  "str_int i = (if i < 0 then CHR ''-'' # str_nat (nat (- i)) else str_nat (nat i))"

definition fmt0 :: "nat \<Rightarrow> int \<Rightarrow> string" where
  "fmt0 w i =
     (if i < 0
      then CHR ''-'' # replicate (w - 1 - length (str_nat (nat (- i)))) CHR ''0'' @ str_nat (nat (- i))
      else replicate (w - length (str_nat (nat i))) CHR ''0'' @ str_nat (nat i))"

definition fmt02d :: "int \<Rightarrow> string" where
  "fmt02d i = fmt0 2 i"

text \<open>
  The interpreter's limit on conversions between integers and decimal text
  (\<open>sys.get_int_max_str_digits()\<close>, 4300 unless changed): \<open>int(s)\<close> raises
  \<open>ValueError\<close> for more than that many digits, and so do \<open>str(n)\<close> and an f-string
  for an integer with more than that many digits. The sign is not counted.
\<close>

definition MAX_STR_DIGITS :: nat where
  "MAX_STR_DIGITS = 4300"

definition fits :: "int \<Rightarrow> bool" where
  "fits i \<longleftrightarrow> length (str_nat (nat \<bar>i\<bar>)) \<le> MAX_STR_DIGITS"

text \<open>\<open>str(n)\<close> and \<open>f"{n}"\<close> where the integer is not known to be small\<close>

definition py_str :: "int \<Rightarrow> error + string" where
  "py_str i = (if fits i then Inr (str_int i) else Inl ValueError)"

text \<open>
  \<open>int(s)\<close> for a string: the white space that \<open>int\<close> accepts around the number
  (tab, line feed, vertical tab, form feed, carriage return, space: fewer characters
  than \<open>strip()\<close> removes), an optional sign, decimal digits, single underscores
  between digits, and at most \<open>MAX_STR_DIGITS\<close> digits, leading zeros counted. \<open>None\<close>
  is the \<open>ValueError\<close>, which every caller in the source catches.
\<close>

definition is_int_space :: "char \<Rightarrow> bool" where
  "is_int_space c \<longleftrightarrow> c \<in> set [CHR '' '', CHR 0x09, CHR 0x0A, CHR 0x0B, CHR 0x0C, CHR 0x0D]"

definition int_strip :: "string \<Rightarrow> string" where
  "int_strip s = rev (dropWhile is_int_space (rev (dropWhile is_int_space s)))"

definition is_digit :: "char \<Rightarrow> bool" where
  "is_digit c \<longleftrightarrow> c \<in> set ''0123456789''"

definition digit_val :: "char \<Rightarrow> nat" where
  "digit_val c = (case map_of (zip ''0123456789'' [0 ..< 10]) c of Some d \<Rightarrow> d | None \<Rightarrow> 0)"

definition count_digits :: "string \<Rightarrow> nat" where
  "count_digits s = length (filter is_digit s)"

fun parse_digits :: "nat \<Rightarrow> string \<Rightarrow> nat option" where
  "parse_digits acc [] = Some acc"
| "parse_digits acc (c # cs) =
     (if is_digit c then parse_digits (acc * 10 + digit_val c) cs
      else if c = CHR ''_'' then
        (case cs of [] \<Rightarrow> None | d # _ \<Rightarrow> if is_digit d then parse_digits acc cs else None)
      else None)"

definition parse_nat :: "string \<Rightarrow> nat option" where
  "parse_nat s =
     (case s of
        [] \<Rightarrow> None
      | c # _ \<Rightarrow> if is_digit c \<and> count_digits s \<le> MAX_STR_DIGITS then parse_digits 0 s else None)"

definition py_int :: "string \<Rightarrow> int option" where
  "py_int s =
     (case int_strip s of
        [] \<Rightarrow> None
      | c # cs \<Rightarrow>
          if c = CHR ''-'' then map_option (\<lambda>n. - int n) (parse_nat cs)
          else if c = CHR ''+'' then map_option int (parse_nat cs)
          else map_option int (parse_nat (c # cs)))"

text \<open>
  Reading the reply dictionary: \<open>r.get(k)\<close> is \<open>None\<close> for a missing key and for a key
  without reply; \<open>x or d\<close> takes \<open>d\<close> when \<open>x\<close> is \<open>None\<close> or the empty string.
\<close>

definition getv :: "replies \<Rightarrow> string \<Rightarrow> string option" where
  "getv r k = (case r k of None \<Rightarrow> None | Some v \<Rightarrow> v)"

definition por :: "string option \<Rightarrow> string \<Rightarrow> string" where
  "por x d = (case x of None \<Rightarrow> d | Some v \<Rightarrow> if v = [] then d else v)"

text \<open>\<open>norm(g)\<close>, lines 54 to 69\<close>

definition norm :: "string \<Rightarrow> string" where
  "norm g =
     (let s = replace ''_'' [] (replace '' '' [] (replace ''-'' [] (upper g))) in
      case (if contains ''AES50'' s then find (\<lambda>char. char \<in> set s) ''ABC'' else None) of
        Some char \<Rightarrow> [char]
      | None \<Rightarrow>
          if s \<in> set [''LOCAL'', ''LOC'', ''LCL''] then ''LCL''
          else if s \<in> set [''MOD'', ''MODULE'', ''DANTE''] then ''MOD''
          else if s \<in> set [''AUX'', ''AUXIN''] then ''AUX''
          else if s \<in> set [''AESEBU'', ''AES''] then ''AES''
          else if s \<in> set [''OSC'', ''OSCILLATOR''] then ''OSC''
          else if s \<in> set [''SC'', ''STAGECONNECT'', ''STCONNECT''] then ''SC''
          else if s \<in> set [''USB'', ''USBAUDIO''] then ''USB''
          else if s \<in> set [''PLAY'', ''USBPLAYER''] then ''PLAY''
          else if s \<in> set [''USR'', ''USER'', ''USERSIGNAL''] then ''USR''
          else if s \<in> set [''CRD'', ''CARD''] then ''CRD''
          else s)"

text \<open>\<open>is_off(val)\<close>, line 162\<close>

definition is_off :: "string \<Rightarrow> bool" where
  "is_off val \<longleftrightarrow> val \<in> set [''0'', ''0.0'', ''OFF'', ''false'', ''False'', ''0.000000'']"

section \<open>Tracks and the stereo pairing pass (lines 293 to 340)\<close>

text \<open>
  The dictionary appended to \<open>tracks\<close> for each output slot. The keys \<open>norm_grp\<close> and
  \<open>in_num\<close> are removed before the list is returned (line 343), so the record of a
  returned track is the part without them.
\<close>

record emitted =
  slot :: int
  name :: string
  color_r :: int
  color_g :: int
  color_b :: int
  ch_name :: string
  src_name :: string
  hw_name :: string
  reaper_input :: int
  stereo_L :: bool
  stereo_R :: bool
  is_empty_routing :: bool

record track = emitted +
  norm_grp :: string
  in_num :: int

text \<open>
  \<open>src_modes\<close>: the mode reply of each hardware reference, \<open>Some None\<close> where the
  reference was asked for and the device did not answer.
\<close>

type_synonym src_modes = "string \<times> int \<rightharpoonup> string option"

text \<open>The test of lines 306 to 317.\<close>

definition is_stereo :: "src_modes \<Rightarrow> track \<Rightarrow> track \<Rightarrow> bool" where
  "is_stereo sm t1 t2 =
     (if name t1 \<noteq> [] \<and> endswith (name t1) '' L'' \<and> name t2 = replace '' L'' '' R'' (name t1)
      then True
      else if norm_grp t1 = norm_grp t2 then
        (if norm_grp t1 \<in> set [''MAIN'', ''BUS'', ''MTX'']
         then in_num t1 mod 2 = 1 \<and> in_num t2 = in_num t1 + 1
         else in_num t1 mod 2 = 1 \<and> in_num t2 = in_num t1 + 1 \<and>
              sm (norm_grp t1, in_num t1) = Some (Some ''ST''))
      else False)"

text \<open>
  The rewriting of the name or of a label of the left track (lines 325 to 329 and
  335 to 339), before the final \<open>strip()\<close>. Line 325 (335) formats \<open>in_num\<close> and line
  326 (336) formats \<open>in_num + 1\<close> as well; beyond the digit limit either raises
  \<open>ValueError\<close>, and nothing in \<open>fetch_wing\<close> catches it.
\<close>

definition clean_label :: "track \<Rightarrow> string \<Rightarrow> error + string" where
  "clean_label t1 val =
     (case py_str (in_num t1) of
        Inl e \<Rightarrow> Inl e
      | Inr n \<Rightarrow>
          if val = norm_grp t1 @ '' '' @ n
          then (case py_str (in_num t1 + 1) of
                  Inl e \<Rightarrow> Inl e
                | Inr m \<Rightarrow> Inr (norm_grp t1 @ '' '' @ n @ ''-'' @ m))
          else Inr (if endswith val '' L'' then take (length val - 2) val
                    else if endswith val ''L'' then take (length val - 1) val
                    else val))"

text \<open>Lines 323 to 330, the new name, and lines 333 to 340, a new label.\<close>

definition rename :: "track \<Rightarrow> error + string" where
  "rename t1 =
     (if name t1 \<noteq> [] then map_sum id strip (clean_label t1 (name t1)) else Inr (name t1))"

definition relabel :: "track \<Rightarrow> string \<Rightarrow> error + string" where
  "relabel t1 val = (if val \<noteq> ''-'' then map_sum id strip (clean_label t1 val) else Inr val)"

text \<open>
  Lines 320 to 340: what happens to the left track of a pair. The name is rewritten
  first, then the labels \<open>ch_name\<close>, \<open>src_name\<close>, \<open>hw_name\<close> in this order; the first
  conversion that raises ends the run.
\<close>

definition mark_left :: "track \<Rightarrow> error + track" where
  "mark_left t1 =
     (case rename t1 of
        Inl e \<Rightarrow> Inl e
      | Inr n \<Rightarrow>
     (case relabel t1 (ch_name t1) of
        Inl e \<Rightarrow> Inl e
      | Inr c \<Rightarrow>
     (case relabel t1 (src_name t1) of
        Inl e \<Rightarrow> Inl e
      | Inr s \<Rightarrow>
     (case relabel t1 (hw_name t1) of
        Inl e \<Rightarrow> Inl e
      | Inr hw \<Rightarrow>
          Inr (t1\<lparr>stereo_L := True, reaper_input := 1024 + (slot t1 - 1),
                  name := n, ch_name := c, src_name := s, hw_name := hw\<rparr>)))))"

definition mark_right :: "track \<Rightarrow> track" where
  "mark_right t2 = t2\<lparr>stereo_R := True\<rparr>"

text \<open>One iteration of the loop of line 301, on the list as it stands.\<close>

definition stereo_step :: "src_modes \<Rightarrow> track list \<Rightarrow> nat \<Rightarrow> error + track list" where
  "stereo_step sm tracks i =
     (if is_empty_routing (tracks ! i) \<or> stereo_R (tracks ! i) then Inr tracks
      else let t1 = tracks ! i; t2 = tracks ! (i + 1) in
        if is_empty_routing t2 then Inr tracks
        else if is_stereo sm t1 t2
          then (case mark_left t1 of
                  Inl e \<Rightarrow> Inl e
                | Inr t1' \<Rightarrow> Inr (tracks[i := t1', i + 1 := mark_right t2]))
          else Inr tracks)"

text \<open>
  \<open>for i in range(len(tracks)-1)\<close>: every index read is inside the list, and the
  length of the list does not change. An iteration that raises ends the loop and the
  run.
\<close>

definition step_on :: "src_modes \<Rightarrow> error + track list \<Rightarrow> nat \<Rightarrow> error + track list" where
  "step_on sm acc i = (case acc of Inl e \<Rightarrow> Inl e | Inr ts \<Rightarrow> stereo_step sm ts i)"

definition stereo_pass :: "src_modes \<Rightarrow> track list \<Rightarrow> error + track list" where
  "stereo_pass sm tracks = foldl (step_on sm) (Inr tracks) [0 ..< length tracks - 1]"

text \<open>Two passes in a row, the second on the list the first one returns.\<close>

definition two_passes :: "src_modes \<Rightarrow> track list \<Rightarrow> error + track list" where
  "two_passes sm tracks =
     (case stereo_pass sm tracks of Inl e \<Rightarrow> Inl e | Inr once \<Rightarrow> stereo_pass sm once)"

text \<open>
  What the rewriting gives when no conversion raises: the same functions with the
  plain \<open>str_int\<close>. They are what a completed pass has computed, and the proofs
  below go through them.
\<close>

definition label_val :: "track \<Rightarrow> string \<Rightarrow> string" where
  "label_val t1 val =
     (if val = norm_grp t1 @ '' '' @ str_int (in_num t1)
      then norm_grp t1 @ '' '' @ str_int (in_num t1) @ ''-'' @ str_int (in_num t1 + 1)
      else if endswith val '' L'' then take (length val - 2) val
      else if endswith val ''L'' then take (length val - 1) val
      else val)"

definition relabel_val :: "track \<Rightarrow> string \<Rightarrow> string" where
  "relabel_val t1 val = (if val \<noteq> ''-'' then strip (label_val t1 val) else val)"

definition left_val :: "track \<Rightarrow> track" where
  "left_val t1 =
     t1\<lparr>stereo_L := True,
        reaper_input := 1024 + (slot t1 - 1),
        name := (if name t1 \<noteq> [] then strip (label_val t1 (name t1)) else name t1),
        ch_name := relabel_val t1 (ch_name t1),
        src_name := relabel_val t1 (src_name t1),
        hw_name := relabel_val t1 (hw_name t1)\<rparr>"

text \<open>
  The scan of a completed pass written by recursion on the list: iteration \<open>i\<close> reads
  and writes only the tracks \<open>i\<close> and \<open>i + 1\<close>, which are the first two of the part
  not yet scanned.
\<close>

definition pair_step :: "src_modes \<Rightarrow> track \<Rightarrow> track \<Rightarrow> track \<times> track" where
  "pair_step sm t1 t2 =
     (if is_empty_routing t1 \<or> stereo_R t1 then (t1, t2)
      else if is_empty_routing t2 then (t1, t2)
      else if is_stereo sm t1 t2 then (left_val t1, mark_right t2)
      else (t1, t2))"

fun pair_scan :: "src_modes \<Rightarrow> track list \<Rightarrow> track list" where
  "pair_scan sm (t1 # t2 # ts) = fst (pair_step sm t1 t2) # pair_scan sm (snd (pair_step sm t1 t2) # ts)"
| "pair_scan sm ts = ts"

text \<open>
  How a track can differ after the pass from what it was before: not at all, by the
  right mark only, or by the rewriting of a left track.
\<close>

definition shape :: "track \<Rightarrow> track \<Rightarrow> bool" where
  "shape t t' \<longleftrightarrow>
     t' = t \<or>
     (\<not> is_empty_routing t \<and> t' = mark_right t) \<or>
     (\<not> is_empty_routing t \<and> \<not> stereo_R t \<and> t' = left_val t)"

text \<open>
  Two adjacent tracks on the first main bus, as the resolver builds them in channel
  name mode for a bus named \<open>HALL\<close>.
\<close>

definition hall_L :: track where
  "hall_L = \<lparr>slot = 1, name = ''HALL L'', color_r = 60, color_g = 60, color_b = 60,
             ch_name = ''HALL'', src_name = ''-'', hw_name = ''MAIN 1 L'', reaper_input = 0,
             stereo_L = False, stereo_R = False, is_empty_routing = False,
             norm_grp = ''MAIN'', in_num = 1\<rparr>"

definition hall_R :: track where
  "hall_R = \<lparr>slot = 2, name = ''HALL R'', color_r = 60, color_g = 60, color_b = 60,
             ch_name = ''HALL'', src_name = ''-'', hw_name = ''MAIN 1 R'', reaper_input = 1,
             stereo_L = False, stereo_R = False, is_empty_routing = False,
             norm_grp = ''MAIN'', in_num = 2\<rparr>"

text \<open>
  The two ways in which the pass accepts a pair: by the display names (line 308), or
  by the references, which must share the group and be an odd index and its successor
  (lines 310 to 315).
\<close>

definition name_match :: "track \<Rightarrow> track \<Rightarrow> bool" where
  "name_match t1 t2 \<longleftrightarrow>
     name t1 \<noteq> [] \<and> endswith (name t1) '' L'' \<and> name t2 = replace '' L'' '' R'' (name t1)"

definition compatible_refs :: "track \<Rightarrow> track \<Rightarrow> bool" where
  "compatible_refs t1 t2 \<longleftrightarrow>
     norm_grp t1 = norm_grp t2 \<and> in_num t1 mod 2 = 1 \<and> in_num t2 = in_num t1 + 1"

text \<open>
  A track never makes the pass raise when its reference index and the successor of
  that index are within the digit limit.
\<close>

definition safe :: "track \<Rightarrow> bool" where
  "safe t \<longleftrightarrow> fits (in_num t) \<and> fits (in_num t + 1)"

section \<open>Configuration (lines 15 to 52)\<close>

record config =
  WING_IP :: string
  INTERFACE :: string
  OUT_COUNT :: int
  NAME_MODE :: string
  FORCE_HW_COLORS :: bool

definition default_config :: config where
  "default_config = \<lparr>WING_IP = ''192.168.8.3'', INTERFACE = ''USB'', OUT_COUNT = 48,
                     NAME_MODE = ''CH'', FORCE_HW_COLORS = False\<rparr>"

text \<open>\<open>s.split(c)\<close> for a single character\<close>

fun split_on :: "char \<Rightarrow> string \<Rightarrow> string list" where
  "split_on c [] = [[]]"
| "split_on c (x # xs) =
     (if x = c then [] # split_on c xs
      else (case split_on c xs of [] \<Rightarrow> [[x]] | y # ys \<Rightarrow> (x # y) # ys))"

text \<open>One line of the configuration file, lines 44 to 52.\<close>

definition config_line :: "config \<Rightarrow> string \<Rightarrow> config" where
  "config_line cfg line =
     (case split_on CHR ''='' (strip line) of
        [] \<Rightarrow> cfg
      | key # val \<Rightarrow>
          (case val of
             [] \<Rightarrow> cfg
           | v # _ \<Rightarrow>
               (let c1 = (if key = ''IP'' then cfg\<lparr>WING_IP := v\<rparr> else cfg);
                    c2 = (if key = ''INTERFACE''
                          then c1\<lparr>INTERFACE := v,
                                  OUT_COUNT := (if v \<in> set [''MOD'', ''CRD''] then 64 else 48)\<rparr>
                          else c1);
                    c3 = (if key = ''NAME_MODE'' then c2\<lparr>NAME_MODE := v\<rparr> else c2)
                in if key = ''FORCE_HW_COLORS'' then c3\<lparr>FORCE_HW_COLORS := (v = ''1'')\<rparr> else c3)))"

text \<open>
  \<open>load_config\<close>: the file is \<open>None\<close> when it does not exist, and the list of its lines
  otherwise. The result is the value of the module's global variables afterwards.
\<close>

definition load_config :: "string list option \<Rightarrow> config" where
  "load_config cf = (case cf of None \<Rightarrow> default_config
                       | Some lines \<Rightarrow> foldl config_line default_config lines)"

definition WING_COLORS :: "int \<rightharpoonup> int \<times> int \<times> int" where
  "WING_COLORS = map_of
     [(0, (60, 60, 60)), (1, (50, 50, 200)), (2, (0, 100, 255)), (3, (128, 0, 255)),
      (4, (0, 200, 255)), (5, (0, 200, 0)), (6, (128, 255, 0)), (7, (255, 255, 0)),
      (8, (200, 100, 0)), (9, (255, 0, 0)), (10, (255, 128, 128)), (11, (255, 0, 128)),
      (12, (200, 100, 255)), (13, (255, 180, 0)), (14, (100, 150, 255)), (15, (255, 140, 0)),
      (16, (0, 180, 150)), (17, (120, 120, 120)), (18, (230, 230, 230))]"

definition HW_FIXED_COLORS :: "string \<rightharpoonup> int \<times> int \<times> int" where
  "HW_FIXED_COLORS = map_of
     [(''A'', (0, 100, 255)), (''B'', (0, 200, 0)), (''C'', (128, 0, 255)),
      (''LCL'', (0, 180, 150)), (''MOD'', (255, 128, 0)), (''CRD'', (200, 200, 200)),
      (''USB'', (200, 200, 200)), (''AUX'', (255, 255, 0)), (''AES'', (255, 0, 255)),
      (''OSC'', (0, 255, 255)), (''SC'', (0, 150, 255)), (''PLAY'', (100, 255, 100)),
      (''USR'', (255, 100, 100)), (''MAIN'', (255, 50, 50)), (''BUS'', (255, 150, 0)),
      (''MTX'', (255, 100, 200))]"

text \<open>\<open>WING_COLORS[0]\<close>, the colour of an uncoloured track\<close>

definition neutral_rgb :: "int \<times> int \<times> int" where
  "neutral_rgb = (60, 60, 60)"

section \<open>The address-space probe (lines 99 to 115)\<close>

text \<open>The format strings \<open>{i}\<close>, \<open>{i:02d}\<close> and \<open>{i:03d}\<close>.\<close>

datatype index_format = Unpadded | Pad2 | Pad3

fun format_index :: "index_format \<Rightarrow> int \<Rightarrow> string" where
  "format_index Unpadded i = str_int i"
| "format_index Pad2 i = fmt0 2 i"
| "format_index Pad3 i = fmt0 3 i"

definition probe_addrs :: "string list" where
  "probe_addrs = concat (map (\<lambda>f. [''/ch/'' @ f @ ''/name'', ''/src/'' @ f @ ''/name'',
                                     ''/src/'' @ f @ ''/in/grp'', ''/src/'' @ f @ ''/in/conn/grp''])
                             [''1'', ''01'', ''001''])"

record probe_result =
  ch_fmt :: index_format
  src_fmt :: index_format
  src_route_grp :: string
  src_route_idx :: string

definition probe :: "replies \<Rightarrow> probe_result" where
  "probe r_probe =
     (let cf = (if getv r_probe ''/ch/01/name'' \<noteq> None then Pad2 else Unpadded);
          sf = (if getv r_probe ''/src/001/name'' \<noteq> None then Pad3
                else if getv r_probe ''/src/01/name'' \<noteq> None then Pad2 else Unpadded);
          alt = (getv r_probe (''/src/'' @ format_index sf 1 @ ''/in/conn/grp'') \<noteq> None)
      in \<lparr>ch_fmt = cf, src_fmt = sf,
          src_route_grp = (if alt then ''in/conn/grp'' else ''in/grp''),
          src_route_idx = (if alt then ''in/conn/in'' else ''in/in'')\<rparr>)"

text \<open>The probe as a run: the query of line 103 followed by the choices.\<close>

definition probe_run :: "transport \<Rightarrow> error + probe_result" where
  "probe_run tr = (case query_reliable tr probe_addrs 4 of Inl e \<Rightarrow> Inl e | Inr r \<Rightarrow> Inr (probe r))"

text \<open>A device that answers the three-digit channel name probe and nothing else.\<close>

definition net_ch3 :: transport where
  "net_ch3 = \<lparr>bind_ok = True,
               incoming = (\<lambda>i k. if i = 0 \<and> k = 0 then [(''/ch/001/name'', [''Kick''])] else [])\<rparr>"

text \<open>A device that answers the two-digit channel name probe and nothing else.\<close>

definition net_ch2 :: transport where
  "net_ch2 = \<lparr>bind_ok = True,
               incoming = (\<lambda>i k. if i = 0 \<and> k = 0 then [(''/ch/01/name'', [''Kick''])] else [])\<rparr>"

section \<open>The two queries (lines 117 to 159)\<close>

definition out_addr :: "config \<Rightarrow> int \<Rightarrow> string \<Rightarrow> string" where
  "out_addr cfg s f = ''/io/out/'' @ INTERFACE cfg @ ''/'' @ str_int s @ ''/'' @ f"

definition strip_addr :: "string \<Rightarrow> string \<Rightarrow> string \<Rightarrow> string" where
  "strip_addr prefix idx f = ''/'' @ prefix @ ''/'' @ idx @ ''/'' @ f"

definition in_addr :: "string \<Rightarrow> int \<Rightarrow> string \<Rightarrow> string" where
  "in_addr g n f = ''/io/in/'' @ g @ ''/'' @ str_int n @ ''/'' @ f"

text \<open>The two spellings of an index, \<open>[str(i), f"{i:02d}"]\<close>.\<close>

definition spellings :: "int \<Rightarrow> string list" where
  "spellings i = [str_int i, fmt02d i]"

definition strip_addrs :: "string \<Rightarrow> int \<Rightarrow> string list \<Rightarrow> string list" where
  "strip_addrs prefix count fs =
     concat (map (\<lambda>i. concat (map (\<lambda>f_str. map (strip_addr prefix f_str) fs) (spellings i)))
                 [1 .. count])"

definition addrs1 :: "config \<Rightarrow> string list" where
  "addrs1 cfg =
     concat (map (\<lambda>s. [out_addr cfg s ''grp'', out_addr cfg s ''in'']) [1 .. OUT_COUNT cfg]) @
     strip_addrs ''ch'' 40 [''name'', ''col'', ''led'', ''light'', ''in/conn/grp'', ''in/conn/in''] @
     strip_addrs ''aux'' 8 [''name'', ''col'', ''led'', ''light'', ''in/conn/grp'', ''in/conn/in''] @
     concat (map (\<lambda>b. strip_addrs b (if b = ''main'' then 4 else if b = ''bus'' then 16 else 8)
                         [''name'', ''col'', ''led'', ''light''])
                 [''main'', ''bus'', ''mtx''])"

text \<open>
  Lines 138 to 142 and 147 to 151: the hardware reference read from a group address
  and an index address, if there is one. An index that is not a number gives none.
\<close>

definition hw_ref :: "replies \<Rightarrow> string \<Rightarrow> string \<Rightarrow> (string \<times> int) option" where
  "hw_ref r1 grp_a in_a =
     (let raw_g = strip (por (getv r1 grp_a) []); n_str = strip (por (getv r1 in_a) []) in
      if raw_g \<noteq> [] \<and> n_str \<noteq> [] \<and>
         raw_g \<notin> set [''MAIN'', ''BUS'', ''MTX'', ''CH'', ''AUX'', ''OFF'']
      then (case py_int n_str of None \<Rightarrow> None | Some n \<Rightarrow> Some (raw_g, n))
      else None)"

text \<open>The address pairs scanned for hardware references, in the order of the scan.\<close>

definition ref_addr_pairs :: "config \<Rightarrow> (string \<times> string) list" where
  "ref_addr_pairs cfg =
     map (\<lambda>s. (out_addr cfg s ''grp'', out_addr cfg s ''in'')) [1 .. OUT_COUNT cfg] @
     concat (map (\<lambda>(prefix, count).
               concat (map (\<lambda>i. map (\<lambda>f_str. (strip_addr prefix f_str ''in/conn/grp'',
                                               strip_addr prefix f_str ''in/conn/in''))
                                     (spellings i))
                           [1 .. count]))
             [(''ch'', 40), (''aux'', 8)])"

text \<open>
  The set \<open>hw_refs\<close>, as the list of its elements in the order they were added.
\<close>

definition add_ref :: "(string \<times> int) list \<Rightarrow> string \<times> int \<Rightarrow> (string \<times> int) list" where
  "add_ref refs x = (if x \<in> set refs then refs else refs @ [x])"

definition collect_hw_refs :: "config \<Rightarrow> replies \<Rightarrow> (string \<times> int) list" where
  "collect_hw_refs cfg r1 =
     foldl (\<lambda>refs (grp_a, in_a). case hw_ref r1 grp_a in_a of None \<Rightarrow> refs | Some x \<Rightarrow> add_ref refs x)
           [] (ref_addr_pairs cfg)"

definition addrs2 :: "(string \<times> int) list \<Rightarrow> string list" where
  "addrs2 refs =
     concat (map (\<lambda>(raw_g, n). map (in_addr raw_g n) [''name'', ''col'', ''led'', ''light'', ''mode''])
                 refs)"

section \<open>Metadata tables (lines 160 to 194)\<close>

text \<open>
  In the functions below \<open>refs\<close> is the set \<open>hw_refs\<close> in the order in which Python
  iterates it; \<open>r\<close> is the merged dictionary of line 159. The integers formatted into
  addresses and labels here and in the resolution of a slot are slot numbers or values
  returned by \<open>int\<close> (and the bus number computed from one), all within the digit
  limit (lemma \<open>py_int_fits\<close> below), so the plain \<open>str_int\<close> is what the source
  computes there.
\<close>

definition src_modes_of :: "(string \<times> int) list \<Rightarrow> replies \<Rightarrow> src_modes" where
  "src_modes_of refs r =
     foldl (\<lambda>m (g, n). m((norm g, n) \<mapsto> (case r (in_addr g n ''mode'') of None \<Rightarrow> Some ''M'' | Some v \<Rightarrow> v)))
           Map.empty refs"

type_synonym meta = "string \<times> int \<times> bool"

definition gather_sources :: "replies \<Rightarrow> (string \<times> int) list \<Rightarrow> (string \<times> int \<rightharpoonup> meta)" where
  "gather_sources r refs =
     foldl (\<lambda>src_data (raw_g, n).
              let s_name = strip (por (getv r (in_addr raw_g n ''name'')) []);
                  s_col = por (getv r (in_addr raw_g n ''col'')) ''0'';
                  s_light = por (getv r (in_addr raw_g n ''led''))
                              (por (getv r (in_addr raw_g n ''light'')) ''1'')
              in case py_int s_col of
                   None \<Rightarrow> src_data
                 | Some c \<Rightarrow> src_data((norm raw_g, n) \<mapsto> (s_name, c, is_off s_light)))
           Map.empty refs"

text \<open>
  The readings shared by \<open>gather_channels\<close> and the direct channel case: a value under
  the plain spelling of the index, else under the two-digit one.
\<close>

definition strip_name :: "replies \<Rightarrow> string \<Rightarrow> int \<Rightarrow> string" where
  "strip_name r prefix i =
     (let a = strip (por (getv r (strip_addr prefix (str_int i) ''name'')) []) in
      if a \<noteq> [] then a else strip (por (getv r (strip_addr prefix (fmt02d i) ''name'')) []))"

definition strip_field :: "replies \<Rightarrow> string \<Rightarrow> int \<Rightarrow> string \<Rightarrow> string \<Rightarrow> string" where
  "strip_field r prefix i f d =
     por (getv r (strip_addr prefix (str_int i) f)) (por (getv r (strip_addr prefix (fmt02d i) f)) d)"

definition strip_light :: "replies \<Rightarrow> string \<Rightarrow> int \<Rightarrow> string" where
  "strip_light r prefix i =
     por (getv r (strip_addr prefix (str_int i) ''led''))
       (por (getv r (strip_addr prefix (fmt02d i) ''led''))
          (por (getv r (strip_addr prefix (str_int i) ''light''))
             (por (getv r (strip_addr prefix (fmt02d i) ''light'')) ''1'')))"

definition gather_channel :: "replies \<Rightarrow> string \<Rightarrow> (string \<times> int \<rightharpoonup> meta) \<Rightarrow> int \<Rightarrow> (string \<times> int \<rightharpoonup> meta)" where
  "gather_channel r prefix ch_data i =
     (let c_name = strip_name r prefix i;
          c_col = strip_field r prefix i ''col'' ''0'';
          c_light = strip_light r prefix i;
          c_grp = norm (strip_field r prefix i ''in/conn/grp'' []);
          c_in = strip_field r prefix i ''in/conn/in'' []
      in case py_int c_in of
           None \<Rightarrow> ch_data
         | Some idx_in \<Rightarrow>
             if c_grp \<noteq> [] then
               (case py_int c_col of
                  None \<Rightarrow> ch_data
                | Some c \<Rightarrow> ch_data((c_grp, idx_in) \<mapsto> (c_name, c, is_off c_light)))
             else ch_data)"

definition gather_channels :: "replies \<Rightarrow> (string \<times> int \<rightharpoonup> meta)" where
  "gather_channels r =
     foldl (\<lambda>ch_data (prefix, count). foldl (gather_channel r prefix) ch_data (rev [1 .. count]))
           Map.empty [(''aux'', 8), (''ch'', 40)]"

section \<open>Resolution of one output slot (lines 197 to 299)\<close>

definition u_grp_of :: "config \<Rightarrow> replies \<Rightarrow> int \<Rightarrow> string" where
  "u_grp_of cfg r s = norm (strip (por (getv r (out_addr cfg s ''grp'')) []))"

text \<open>Lines 200 and 201: an index that is not a number falls back to the slot number.\<close>

definition u_in_of :: "config \<Rightarrow> replies \<Rightarrow> int \<Rightarrow> int" where
  "u_in_of cfg r s =
     (case py_int (por (getv r (out_addr cfg s ''in'')) (str_int s)) of None \<Rightarrow> s | Some n \<Rightarrow> n)"

definition empty_routing :: "config \<Rightarrow> replies \<Rightarrow> int \<Rightarrow> bool" where
  "empty_routing cfg r s \<longleftrightarrow> u_grp_of cfg r s = ''OFF'' \<or> u_grp_of cfg r s = []"

text \<open>The variables set by lines 205 to 228.\<close>

record direct =
  is_direct_ch :: bool
  ch_direct_name :: string
  ch_direct_col :: int
  ch_direct_off :: bool
  hw_grp :: string
  hw_in :: int

definition resolve_direct :: "replies \<Rightarrow> string \<Rightarrow> int \<Rightarrow> direct" where
  "resolve_direct r u_grp u_in =
     (if u_grp \<in> set [''CH'', ''AUX''] then
        (let prefix = lower u_grp;
             h_grp = norm (strip_field r prefix u_in ''in/conn/grp'' []);
             h_in = strip_field r prefix u_in ''in/conn/in'' []
         in \<lparr>is_direct_ch = True,
             ch_direct_name = strip_name r prefix u_in,
             ch_direct_col = (case py_int (strip_field r prefix u_in ''col'' ''0'') of
                                None \<Rightarrow> 0 | Some c \<Rightarrow> c),
             ch_direct_off = is_off (strip_light r prefix u_in),
             hw_grp = (if h_grp \<noteq> [] \<and> h_in \<noteq> [] then h_grp else u_grp),
             hw_in = (if h_grp \<noteq> [] \<and> h_in \<noteq> []
                      then (case py_int h_in of None \<Rightarrow> u_in | Some n \<Rightarrow> n) else u_in)\<rparr>)
      else \<lparr>is_direct_ch = False, ch_direct_name = [], ch_direct_col = 0, ch_direct_off = False,
            hw_grp = u_grp, hw_in = u_in\<rparr>)"

text \<open>The variables set by lines 230 to 280.\<close>

record described =
  d_name :: string
  d_col :: int
  force_uncolored :: bool
  ch_str :: string
  src_str :: string
  hw_str :: string

definition side :: "int \<Rightarrow> string" where
  "side n = (if n mod 2 \<noteq> 0 then '' L'' else '' R'')"

definition describe_empty :: "int \<Rightarrow> described" where
  "describe_empty s =
     \<lparr>d_name = ''(INPUT '' @ str_int s @ '' NOT ROUTED)'', d_col = 0, force_uncolored = True,
      ch_str = ''-'', src_str = ''-'', hw_str = ''-''\<rparr>"

definition describe_bus :: "config \<Rightarrow> replies \<Rightarrow> direct \<Rightarrow> described" where
  "describe_bus cfg r d =
     (let m_idx = (hw_in d - 1) div 2 + 1;
          bus = lower (hw_grp d);
          actual_name = strip (strip_field r bus m_idx ''name'' []);
          col = (case py_int (strip_field r bus m_idx ''col'' ''0'') of None \<Rightarrow> 0 | Some c \<Rightarrow> c);
          label = hw_grp d @ '' '' @ str_int m_idx @ side (hw_in d)
      in \<lparr>d_name = (if NAME_MODE cfg = ''CH''
                     then (if actual_name \<noteq> [] then actual_name @ side (hw_in d) else [])
                     else label),
          d_col = col,
          force_uncolored = (NAME_MODE cfg = ''CH'' \<and> is_off (strip_light r bus m_idx)),
          ch_str = (if actual_name \<noteq> [] then actual_name else ''-''),
          src_str = ''-'',
          hw_str = label\<rparr>)"

definition meta_name :: "meta option \<Rightarrow> string" where
  "meta_name m = (case m of None \<Rightarrow> [] | Some (n, c, off) \<Rightarrow> n)"

definition describe_hw ::
  "config \<Rightarrow> (string \<times> int \<rightharpoonup> meta) \<Rightarrow> (string \<times> int \<rightharpoonup> meta) \<Rightarrow> direct \<Rightarrow> described" where
  "describe_hw cfg src_to_hw ch_to_hw d =
     (let hw_key = (hw_grp d, hw_in d);
          label = hw_grp d @ '' '' @ str_int (hw_in d);
          picked =
            (if NAME_MODE cfg = ''CH'' then
               (if is_direct_ch d then (ch_direct_name d, ch_direct_col d, ch_direct_off d)
                else (case ch_to_hw hw_key of None \<Rightarrow> ([], 0, False) | Some m \<Rightarrow> m))
             else if NAME_MODE cfg = ''SRC'' then
               (case src_to_hw hw_key of None \<Rightarrow> ([], 0, False) | Some (n, c, off) \<Rightarrow> (n, c, False))
             else if NAME_MODE cfg = ''HW'' then (label, 0, False)
             else ([], 0, False))
      in \<lparr>d_name = (if fst picked = [] \<and> NAME_MODE cfg = ''HW'' then label else fst picked),
          d_col = fst (snd picked),
          force_uncolored = snd (snd picked),
          ch_str = (if is_direct_ch d \<and> ch_direct_name d \<noteq> [] then ch_direct_name d
                    else if meta_name (ch_to_hw hw_key) \<noteq> [] then meta_name (ch_to_hw hw_key)
                    else ''-''),
          src_str = (if meta_name (src_to_hw hw_key) \<noteq> [] then meta_name (src_to_hw hw_key)
                     else ''-''),
          hw_str = label\<rparr>)"

definition describe ::
  "config \<Rightarrow> replies \<Rightarrow> (string \<times> int \<rightharpoonup> meta) \<Rightarrow> (string \<times> int \<rightharpoonup> meta) \<Rightarrow> int \<Rightarrow> direct \<Rightarrow> described" where
  "describe cfg r src_to_hw ch_to_hw s d =
     (if empty_routing cfg r s then describe_empty s
      else if hw_grp d \<in> set [''MAIN'', ''BUS'', ''MTX''] then describe_bus cfg r d
      else describe_hw cfg src_to_hw ch_to_hw d)"

text \<open>Lines 282 to 284.\<close>

definition use_hw_color :: "config \<Rightarrow> string \<Rightarrow> bool" where
  "use_hw_color cfg g \<longleftrightarrow>
     FORCE_HW_COLORS cfg \<or> NAME_MODE cfg = ''HW'' \<or>
     (NAME_MODE cfg = ''SRC'' \<and> g \<in> set [''MAIN'', ''BUS'', ''MTX''])"

text \<open>
  Lines 286 to 291: the fixed colour of the group applies when it is in force, the group
  has one and the slot is routed; else the mute flag gives the neutral colour; else the
  colour code is looked up, an unknown code giving the neutral colour.
\<close>

definition fixed_applies :: "config \<Rightarrow> string \<Rightarrow> bool \<Rightarrow> bool" where
  "fixed_applies cfg g is_empty \<longleftrightarrow> use_hw_color cfg g \<and> g \<in> dom HW_FIXED_COLORS \<and> \<not> is_empty"

text \<open>\<open>WING_COLORS.get(col, WING_COLORS[0])\<close>\<close>

definition palette_rgb :: "int \<Rightarrow> int \<times> int \<times> int" where
  "palette_rgb col = (case WING_COLORS col of None \<Rightarrow> the (WING_COLORS 0) | Some c \<Rightarrow> c)"

definition pick_rgb :: "config \<Rightarrow> string \<Rightarrow> bool \<Rightarrow> bool \<Rightarrow> int \<Rightarrow> int \<times> int \<times> int" where
  "pick_rgb cfg g is_empty uncolored col =
     (if fixed_applies cfg g is_empty then the (HW_FIXED_COLORS g)
      else if uncolored then the (WING_COLORS 0)
      else palette_rgb col)"

text \<open>The variables of one slot, and the track built from them.\<close>

definition slot_direct :: "config \<Rightarrow> replies \<Rightarrow> int \<Rightarrow> direct" where
  "slot_direct cfg r s = resolve_direct r (u_grp_of cfg r s) (u_in_of cfg r s)"

definition slot_described ::
  "config \<Rightarrow> replies \<Rightarrow> (string \<times> int \<rightharpoonup> meta) \<Rightarrow> (string \<times> int \<rightharpoonup> meta) \<Rightarrow> int \<Rightarrow> described" where
  "slot_described cfg r src_to_hw ch_to_hw s = describe cfg r src_to_hw ch_to_hw s (slot_direct cfg r s)"

definition resolve_slot ::
  "config \<Rightarrow> replies \<Rightarrow> (string \<times> int \<rightharpoonup> meta) \<Rightarrow> (string \<times> int \<rightharpoonup> meta) \<Rightarrow> int \<Rightarrow> track" where
  "resolve_slot cfg r src_to_hw ch_to_hw s =
     (let d = slot_direct cfg r s;
          ds = slot_described cfg r src_to_hw ch_to_hw s;
          rgb = pick_rgb cfg (hw_grp d) (empty_routing cfg r s) (force_uncolored ds) (d_col ds)
      in \<lparr>slot = s, name = d_name ds,
          color_r = fst rgb, color_g = fst (snd rgb), color_b = snd (snd rgb),
          ch_name = ch_str ds, src_name = src_str ds, hw_name = hw_str ds,
          reaper_input = s - 1, stereo_L = False, stereo_R = False,
          is_empty_routing = empty_routing cfg r s,
          norm_grp = hw_grp d, in_num = hw_in d\<rparr>)"

section \<open>The run (\<open>fetch_wing\<close>)\<close>

text \<open>
  The list \<open>tracks\<close> after the loop of line 197, for the merged replies \<open>r\<close> and the
  hardware references \<open>refs\<close> in iteration order.
\<close>

definition slot_tracks :: "config \<Rightarrow> (string \<times> int) list \<Rightarrow> replies \<Rightarrow> track list" where
  "slot_tracks cfg refs r =
     map (resolve_slot cfg r (gather_sources r refs) (gather_channels r)) [1 .. OUT_COUNT cfg]"

text \<open>
  The list after the stereo pairing pass (line 340), or the error that ended the pass.
\<close>

definition resolve_tracks :: "config \<Rightarrow> (string \<times> int) list \<Rightarrow> replies \<Rightarrow> error + track list" where
  "resolve_tracks cfg refs r = stereo_pass (src_modes_of refs r) (slot_tracks cfg refs r)"

text \<open>What a completed pass has made of the list \<open>tracks\<close>.\<close>

definition paired_tracks :: "config \<Rightarrow> (string \<times> int) list \<Rightarrow> replies \<Rightarrow> track list" where
  "paired_tracks cfg refs r = pair_scan (src_modes_of refs r) (slot_tracks cfg refs r)"

text \<open>
  The surroundings of a run: the network during each of the three queries, and the
  order in which Python iterates the set \<open>hw_refs\<close> (the language leaves it open).
\<close>

record world =
  probe_net :: transport
  phase1_net :: transport
  phase2_net :: transport
  set_order :: "(string \<times> int) list \<Rightarrow> (string \<times> int) list"

text \<open>
  Lines 99 to 159: the three queries. The result is the iterated set \<open>hw_refs\<close> and
  the merged dictionary \<open>r\<close>; the choices of the probe are not used after line 115.
\<close>

definition fetch_replies :: "config \<Rightarrow> world \<Rightarrow> error + (string \<times> int) list \<times> replies" where
  "fetch_replies cfg w =
     (case query_reliable (probe_net w) probe_addrs 4 of
        Inl e \<Rightarrow> Inl e
      | Inr r_probe \<Rightarrow>
          (case query_reliable (phase1_net w) (addrs1 cfg) 4 of
             Inl e \<Rightarrow> Inl e
           | Inr r1 \<Rightarrow>
               (let refs = set_order w (collect_hw_refs cfg r1) in
                case (if addrs2 refs \<noteq> [] then query_reliable (phase2_net w) (addrs2 refs) 4
                      else Inr Map.empty) of
                  Inl e \<Rightarrow> Inl e
                | Inr r2 \<Rightarrow> Inr (refs, r1 ++ r2))))"

definition fetch_wing :: "config \<Rightarrow> world \<Rightarrow> error + emitted list" where
  "fetch_wing cfg w =
     (case fetch_replies cfg w of
        Inl e \<Rightarrow> Inl e
      | Inr (refs, r) \<Rightarrow>
          (case resolve_tracks cfg refs r of
             Inl e \<Rightarrow> Inl e
           | Inr tracks \<Rightarrow> Inr (map emitted.truncate tracks)))"

text \<open>
  The example of the specification: slot 1 on MAIN 1, slot 2 on MAIN 2, slot 3 OFF,
  slot 4 on channel 5 named \<open>Vocal\<close> with colour code 9; nothing else answers.
\<close>

definition r_example :: replies where
  "r_example = map_of
     [(''/io/out/USB/1/grp'', Some ''MAIN''), (''/io/out/USB/1/in'', Some ''1''),
      (''/io/out/USB/2/grp'', Some ''MAIN''), (''/io/out/USB/2/in'', Some ''2''),
      (''/io/out/USB/3/grp'', Some ''OFF''), (''/io/out/USB/3/in'', Some ''3''),
      (''/io/out/USB/4/grp'', Some ''CH''), (''/io/out/USB/4/in'', Some ''5''),
      (''/ch/5/name'', Some ''Vocal''), (''/ch/5/col'', Some ''9''), (''/ch/5/led'', Some ''1'')]"

text \<open>
  A device on which slot 1 is fed from aux strip 1 and the light of that strip is off;
  nothing else answers.
\<close>

definition r_muted :: replies where
  "r_muted = map_of
     [(''/io/out/USB/1/grp'', Some ''AUX''), (''/io/out/USB/1/in'', Some ''1''),
      (''/aux/1/name'', Some ''Talkback''), (''/aux/1/col'', Some ''9''),
      (''/aux/1/led'', Some ''0'')]"

text \<open>
  A device on which slot 1 is fed from channel strip 1, named \<open>Gtr L\<close>, and slot 2
  from aux strip 1, named \<open>Gtr R\<close>; nothing else answers.
\<close>

definition r_gtr :: replies where
  "r_gtr = map_of
     [(''/io/out/USB/1/grp'', Some ''CH''), (''/io/out/USB/1/in'', Some ''1''),
      (''/io/out/USB/2/grp'', Some ''AUX''), (''/io/out/USB/2/in'', Some ''1''),
      (''/ch/1/name'', Some ''Gtr L''), (''/aux/1/name'', Some ''Gtr R'')]"

text \<open>
  A device on which slots 1 and 2 are fed from the channel strips 1 and 2, named
  \<open>X L\<close> and \<open>X R\<close>, and channel strip 1 is patched from the local input whose
  number is written with \<open>MAX_STR_DIGITS\<close> nines; nothing else answers.
\<close>

definition nines :: string where
  "nines = replicate MAX_STR_DIGITS CHR ''9''"

definition r_crash :: replies where
  "r_crash = map_of
     [(''/io/out/USB/1/grp'', Some ''CH''), (''/io/out/USB/1/in'', Some ''1''),
      (''/io/out/USB/2/grp'', Some ''CH''), (''/io/out/USB/2/in'', Some ''2''),
      (''/ch/1/name'', Some ''X L''), (''/ch/2/name'', Some ''X R''),
      (''/ch/1/in/conn/grp'', Some ''LCL''), (''/ch/1/in/conn/in'', Some nines)]"

section \<open>Evaluation of the digit limit\<close>

text \<open>
  The two tests against \<open>MAX_STR_DIGITS\<close> with the comparison made on integers, which
  evaluates in binary; the examples below are computed with these equations.
\<close>

lemma parse_nat_code [code]:
  "parse_nat s =
     (case s of
        [] \<Rightarrow> None
      | c # _ \<Rightarrow> if is_digit c \<and> int (count_digits s) \<le> 4300 then parse_digits 0 s else None)"
  by (simp add: parse_nat_def MAX_STR_DIGITS_def split: list.splits)

lemma fits_code [code]: "fits i \<longleftrightarrow> int (length (str_nat (nat \<bar>i\<bar>))) \<le> 4300"
  by (simp add: fits_def MAX_STR_DIGITS_def)

section \<open>Properties of the query engine\<close>

lemma qinv_init: "qinv addrs (query_init addrs)"
  by (auto simp: qinv_def query_init_def first_reply_def fun_eq_iff)

lemma find_append_fst:
  "find P (xs @ [y]) = (case find P xs of Some x \<Rightarrow> Some x | None \<Rightarrow> if P y then Some y else None)"
  by (induction xs) auto

lemma find_None_fst: "find (\<lambda>m. fst m = a) ms = None \<longleftrightarrow> a \<notin> fst ` set ms"
  by (induction ms) auto

lemma qinv_h:
  assumes "qinv addrs st"
  shows "qinv addrs (h st m)"
proof -
  have p: "pending st = set addrs - fst ` set (handled st)"
    and r: "res st = (\<lambda>a. if a \<in> set addrs then Some (first_reply (handled st) a) else None)"
    using assms by (simp_all add: qinv_def)
  show ?thesis
  proof (cases "fst m \<in> pending st")
    case True
    then have new: "find (\<lambda>x. fst x = fst m) (handled st) = None" and mem: "fst m \<in> set addrs"
      using p by (auto simp: find_None_fst)
    have "pending (h st m) = set addrs - fst ` set (handled (h st m))"
      using True p by (auto simp: h_def Let_def)
    moreover have "res (h st m) =
        (\<lambda>a. if a \<in> set addrs then Some (first_reply (handled (h st m)) a) else None)"
    proof
      fix a
      show "res (h st m) a =
          (if a \<in> set addrs then Some (first_reply (handled (h st m)) a) else None)"
        using True new mem r
        by (auto simp: h_def Let_def first_reply_def find_append_fst
                 split: option.splits)
    qed
    ultimately show ?thesis by (simp add: qinv_def)
  next
    case False
    then have seen: "fst m \<notin> set addrs \<or> fst m \<in> fst ` set (handled st)"
      using p by auto
    have "pending (h st m) = set addrs - fst ` set (handled (h st m))"
      using False p by (auto simp: h_def Let_def)
    moreover have "res (h st m) =
        (\<lambda>a. if a \<in> set addrs then Some (first_reply (handled (h st m)) a) else None)"
    proof
      fix a
      show "res (h st m) a =
          (if a \<in> set addrs then Some (first_reply (handled (h st m)) a) else None)"
        using False seen r
        by (auto simp: h_def Let_def first_reply_def find_append_fst find_None_fst
                 split: option.splits)
    qed
    ultimately show ?thesis by (simp add: qinv_def)
  qed
qed

lemma qinv_drain: "qinv addrs st \<Longrightarrow> qinv addrs (drain ms st)"
  unfolding drain_def by (induction ms arbitrary: st) (auto intro: qinv_h)

lemma qinv_attempt_loop: "qinv addrs st \<Longrightarrow> qinv addrs (attempt_loop inc batch n k st)"
  by (induction inc batch n k st rule: attempt_loop.induct) (auto intro: qinv_drain)

lemma qinv_batch_loop: "qinv addrs st \<Longrightarrow> qinv addrs (batch_loop tr as n i st)"
proof (induction tr as n i st rule: batch_loop.induct)
  case (1 tr as n i st)
  show ?case
  proof (cases "i < length as")
    case True
    then show ?thesis
      using 1 by (subst batch_loop.simps) (simp add: qinv_attempt_loop)
  next
    case False
    then show ?thesis
      using 1 by (subst batch_loop.simps) simp
  qed
qed

lemma qinv_query_run: "qinv addrs (query_run tr addrs attempts)"
  unfolding query_run_def by (rule qinv_batch_loop [OF qinv_init])

lemma query_reliable_Inr:
  assumes "query_reliable tr addrs n = Inr r"
  shows "r = (\<lambda>a. if a \<in> set addrs then Some (first_reply (query_log tr addrs n) a) else None)"
proof (cases "addrs = []")
  case True
  then show ?thesis
    using assms by (auto simp: query_reliable_def fun_eq_iff)
next
  case False
  then have "r = res (query_run tr addrs n)"
    using assms by (auto simp: query_reliable_def split: if_splits)
  then show ?thesis
    using qinv_query_run [of addrs tr n] False by (auto simp: qinv_def query_log_def fun_eq_iff)
qed

lemma first_reply_None: "first_reply ms a = None \<longleftrightarrow> a \<notin> fst ` set ms"
  by (simp add: first_reply_def find_None_fst)

text \<open>
  Claim C1. Whenever \<open>query_reliable\<close> returns (it does as soon as the socket could be
  created, or the address list is empty), the keys of the returned dictionary are
  exactly the queried addresses, and an address for which no message was handled
  during the run maps to the ordinary value \<open>None\<close>.
\<close>

theorem query_reliable_keys:
  "(bind_ok tr \<or> addrs = [] \<longrightarrow> (\<exists>r. query_reliable tr addrs n = Inr r)) \<and>
   (\<forall>r. query_reliable tr addrs n = Inr r \<longrightarrow>
      dom r = set addrs \<and>
      (\<forall>a\<in>set addrs. a \<notin> fst ` set (query_log tr addrs n) \<longrightarrow> r a = Some None))"
proof (intro conjI allI impI)
  assume "bind_ok tr \<or> addrs = []"
  then show "\<exists>r. query_reliable tr addrs n = Inr r"
    by (auto simp: query_reliable_def)
next
  fix r
  assume "query_reliable tr addrs n = Inr r"
  then have r: "r = (\<lambda>a. if a \<in> set addrs
                        then Some (first_reply (query_log tr addrs n) a) else None)"
    by (rule query_reliable_Inr)
  show "dom r = set addrs"
    by (auto simp: r dom_def)
  show "\<forall>a\<in>set addrs. a \<notin> fst ` set (query_log tr addrs n) \<longrightarrow> r a = Some None"
    by (simp add: r first_reply_None)
qed

theorem query_reliable_keys_witness:
  "bind_ok net_dup \<and>
   result_at (query_reliable net_dup [''/a'', ''/b''] 4) ''/b'' = Inr (Some None) \<and>
   ''/b'' \<in> set [''/a'', ''/b''] \<and>
   ''/b'' \<notin> fst ` set (query_log net_dup [''/a'', ''/b''] 4)"
proof -
  let ?A = "[''/a'', ''/b'']"
  let ?r = "res (query_run net_dup ?A 4)"
  have b: "bind_ok net_dup"
    by (simp add: net_dup_def)
  have q: "query_reliable net_dup ?A 4 = Inr ?r"
    by (simp add: query_reliable_def net_dup_def)
  have l: "query_log net_dup ?A 4 = [(''/a'', [''1'']), (''/a'', [''2''])]"
    by code_simp
  have n: "''/b'' \<notin> fst ` set (query_log net_dup ?A 4)"
    unfolding l by simp
  have m: "''/b'' \<in> set ?A"
    by simp
  from query_reliable_keys [of net_dup ?A 4]
  have "\<forall>r. query_reliable net_dup ?A 4 = Inr r \<longrightarrow>
      dom r = set ?A \<and>
      (\<forall>a\<in>set ?A. a \<notin> fst ` set (query_log net_dup ?A 4) \<longrightarrow> r a = Some None)"
    by (rule conjunct2)
  then have "\<forall>a\<in>set ?A. a \<notin> fst ` set (query_log net_dup ?A 4) \<longrightarrow> ?r a = Some None"
    using q by blast
  then have "?r ''/b'' = Some None"
    using m n by blast
  then have "result_at (query_reliable net_dup ?A 4) ''/b'' = Inr (Some None)"
    unfolding q by (simp add: result_at_def)
  then show ?thesis
    using b m n by blast
qed

text \<open>
  Claim C2 as stated says that a later reply for the same address replaces the earlier
  one. On \<open>net_dup\<close> the last reply handled for \<open>/a\<close> is \<open>2\<close>, and the run returns \<open>1\<close>.
\<close>

theorem query_reliable_latest_counterexample:
  "last_reply (query_log net_dup [''/a'', ''/b''] 4) ''/a'' = Some ''2'' \<and>
   result_at (query_reliable net_dup [''/a'', ''/b''] 4) ''/a'' = Inr (Some (Some ''1''))"
  by code_simp

text \<open>
  Claim C2, amended. For every address of the query, the returned value is the text of
  the first reply handled for that address during the run (and \<open>None\<close> when there was
  none): the handler stores a reply only while the address is still pending, so a
  duplicate or late reply never changes the stored value.
\<close>

theorem query_reliable_first_reply:
  "query_reliable tr addrs n = Inr r \<Longrightarrow> a \<in> set addrs \<Longrightarrow>
   r a = Some (first_reply (query_log tr addrs n) a)"
  by (drule query_reliable_Inr) simp

theorem query_reliable_first_reply_witness:
  "query_reliable net_dup [''/a'', ''/b''] 4 = Inr (res (query_run net_dup [''/a'', ''/b''] 4)) \<and>
   ''/a'' \<in> set [''/a'', ''/b''] \<and>
   res (query_run net_dup [''/a'', ''/b''] 4) ''/a'' = Some (Some ''1'')"
proof -
  have q: "query_reliable net_dup [''/a'', ''/b''] 4 = Inr (res (query_run net_dup [''/a'', ''/b''] 4))"
    by (simp add: query_reliable_def net_dup_def)
  have l: "first_reply (query_log net_dup [''/a'', ''/b''] 4) ''/a'' = Some ''1''"
    by code_simp
  show ?thesis
    using query_reliable_first_reply [OF q, of "''/a''"] q l by simp
qed

section \<open>Properties of the stereo pairing pass\<close>

subsection \<open>The scan of a completed pass\<close>

lemma length_pair_scan [simp]: "length (pair_scan sm ts) = length ts"
  by (induction sm ts rule: pair_scan.induct) simp_all

lemma shape_refl: "shape t t"
  by (simp add: shape_def)

lemma shape_after_right:
  "\<not> is_empty_routing y \<Longrightarrow> shape (mark_right y) t' \<Longrightarrow> shape y t'"
  by (auto simp: shape_def mark_right_def)

lemma pair_step_fst: "fst (pair_step sm t1 t2) = t1 \<or>
    (\<not> is_empty_routing t1 \<and> \<not> stereo_R t1 \<and> fst (pair_step sm t1 t2) = left_val t1)"
  by (simp add: pair_step_def)

lemma pair_step_snd: "snd (pair_step sm t1 t2) = t2 \<or>
    (\<not> is_empty_routing t2 \<and> snd (pair_step sm t1 t2) = mark_right t2)"
  by (simp add: pair_step_def)

lemma pair_scan_shape:
  "i < length ts \<Longrightarrow> shape (ts ! i) (pair_scan sm ts ! i)"
proof (induction sm ts arbitrary: i rule: pair_scan.induct)
  case (1 sm t1 t2 ts)
  show ?case
  proof (cases i)
    case 0
    then show ?thesis
      using pair_step_fst [of sm t1 t2] by (auto simp: shape_def)
  next
    case (Suc j)
    then have j: "j < length (snd (pair_step sm t1 t2) # ts)"
      using "1.prems" by simp
    have sh: "shape ((snd (pair_step sm t1 t2) # ts) ! j)
                 (pair_scan sm (snd (pair_step sm t1 t2) # ts) ! j)"
      by (rule "1.IH" [OF j])
    show ?thesis
    proof (cases j)
      case 0
      then show ?thesis
        using sh Suc pair_step_snd [of sm t1 t2] by (auto intro: shape_after_right)
    next
      case (Suc k)
      then show ?thesis
        using sh \<open>i = Suc j\<close> by simp
    qed
  qed
qed (simp_all add: shape_refl)

lemma scan_hd_R: "stereo_R (pair_scan sm (t # ts) ! 0) = stereo_R t"
  by (cases ts) (simp_all add: pair_step_def left_val_def)

lemma scan_hd_skip: "stereo_R t \<Longrightarrow> pair_scan sm (t # ts) ! 0 = t"
  by (cases ts) (simp_all add: pair_step_def)

lemma is_stereo_mark_right [simp]: "is_stereo sm (mark_right t) u = is_stereo sm t u"
  by (simp add: is_stereo_def mark_right_def)

lemma snd_pair_step_cases:
  "snd (pair_step sm t1 t2) = t2 \<or> snd (pair_step sm t1 t2) = mark_right t2"
  by (simp add: pair_step_def)

lemma pair_scan_forward:
  "i + 1 < length ts \<Longrightarrow> \<not> is_empty_routing (ts ! i) \<Longrightarrow> \<not> stereo_R (pair_scan sm ts ! i) \<Longrightarrow>
   \<not> is_empty_routing (ts ! (i + 1)) \<Longrightarrow> is_stereo sm (ts ! i) (ts ! (i + 1)) \<Longrightarrow>
   pair_scan sm ts ! i = left_val (ts ! i) \<and> stereo_R (pair_scan sm ts ! (i + 1))"
proof (induction sm ts arbitrary: i rule: pair_scan.induct)
  case (1 sm t1 t2 ts)
  let ?b = "snd (pair_step sm t1 t2)"
  show ?case
  proof (cases i)
    case 0
    have "\<not> stereo_R t1"
      using "1.prems"(3) 0 scan_hd_R [of sm t1 "t2 # ts"] by simp
    then have ps: "pair_step sm t1 t2 = (left_val t1, mark_right t2)"
      using "1.prems" 0 by (simp add: pair_step_def)
    have "stereo_R (pair_scan sm (mark_right t2 # ts) ! 0)"
      by (simp add: scan_hd_R mark_right_def)
    then show ?thesis
      using 0 ps by simp
  next
    case (Suc j)
    have nr: "\<not> stereo_R (pair_scan sm (?b # ts) ! j)"
      using "1.prems"(3) Suc by simp
    have same: "(?b # ts) ! j = (t2 # ts) ! j"
    proof (cases j)
      case 0
      have "\<not> stereo_R ?b"
        using nr 0 by (simp add: scan_hd_R)
      then have "?b = t2"
        using snd_pair_step_cases [of sm t1 t2] by (auto simp: mark_right_def)
      then show ?thesis using 0 by simp
    next
      case (Suc k)
      then show ?thesis by simp
    qed
    have "pair_scan sm (?b # ts) ! j = left_val ((?b # ts) ! j) \<and>
          stereo_R (pair_scan sm (?b # ts) ! (j + 1))"
    proof (rule "1.IH")
      show "j + 1 < length (?b # ts)" using "1.prems"(1) Suc by simp
      show "\<not> is_empty_routing ((?b # ts) ! j)" using "1.prems"(2) Suc same by simp
      show "\<not> stereo_R (pair_scan sm (?b # ts) ! j)" by (rule nr)
      show "\<not> is_empty_routing ((?b # ts) ! (j + 1))" using "1.prems"(4) Suc by simp
      show "is_stereo sm ((?b # ts) ! j) ((?b # ts) ! (j + 1))"
        using "1.prems"(5) Suc same by simp
    qed
    then show ?thesis
      using Suc same by simp
  qed
qed simp_all

lemma pair_scan_backward:
  "i + 1 < length ts \<Longrightarrow> stereo_R (pair_scan sm ts ! (i + 1)) \<Longrightarrow> \<not> stereo_R (ts ! (i + 1)) \<Longrightarrow>
   \<not> is_empty_routing (ts ! i) \<and> \<not> is_empty_routing (ts ! (i + 1)) \<and>
   \<not> stereo_R (pair_scan sm ts ! i) \<and> is_stereo sm (ts ! i) (ts ! (i + 1)) \<and>
   pair_scan sm ts ! i = left_val (ts ! i) \<and>
   pair_scan sm ts ! (i + 1) = mark_right (ts ! (i + 1))"
proof (induction sm ts arbitrary: i rule: pair_scan.induct)
  case (1 sm t1 t2 ts)
  let ?b = "snd (pair_step sm t1 t2)"
  show ?case
  proof (cases i)
    case 0
    have "stereo_R ?b"
      using "1.prems"(2) 0 by (simp add: scan_hd_R)
    then have neq: "?b \<noteq> t2"
      using "1.prems"(3) 0 by auto
    then have fired: "\<not> is_empty_routing t1" "\<not> stereo_R t1" "\<not> is_empty_routing t2"
        "is_stereo sm t1 t2" "pair_step sm t1 t2 = (left_val t1, mark_right t2)"
      by (auto simp: pair_step_def split: if_splits)
    have "pair_scan sm (mark_right t2 # ts) ! 0 = mark_right t2"
      by (rule scan_hd_skip) (simp add: mark_right_def)
    then show ?thesis
      using 0 fired by (simp add: left_val_def)
  next
    case (Suc j)
    have ih: "\<not> is_empty_routing ((?b # ts) ! j) \<and> \<not> is_empty_routing ((?b # ts) ! (j + 1)) \<and>
        \<not> stereo_R (pair_scan sm (?b # ts) ! j) \<and>
        is_stereo sm ((?b # ts) ! j) ((?b # ts) ! (j + 1)) \<and>
        pair_scan sm (?b # ts) ! j = left_val ((?b # ts) ! j) \<and>
        pair_scan sm (?b # ts) ! (j + 1) = mark_right ((?b # ts) ! (j + 1))"
    proof (rule "1.IH")
      show "j + 1 < length (?b # ts)" using "1.prems"(1) Suc by simp
      show "stereo_R (pair_scan sm (?b # ts) ! (j + 1))" using "1.prems"(2) Suc by simp
      show "\<not> stereo_R ((?b # ts) ! (j + 1))" using "1.prems"(3) Suc by simp
    qed
    have same: "(?b # ts) ! j = (t2 # ts) ! j"
    proof (cases j)
      case 0
      have "\<not> stereo_R ?b"
        using ih 0 by (simp add: scan_hd_R)
      then have "?b = t2"
        using snd_pair_step_cases [of sm t1 t2] by (auto simp: mark_right_def)
      then show ?thesis using 0 by simp
    next
      case (Suc k)
      then show ?thesis by simp
    qed
    show ?thesis
      using ih Suc same by auto
  qed
qed simp_all

lemma mark_right_idem: "stereo_R t \<Longrightarrow> mark_right t = t"
  by (simp add: mark_right_def)

subsection \<open>The pass and its errors\<close>

lemma clean_label_Inr: "clean_label t v = Inr s \<Longrightarrow> s = label_val t v"
  by (auto simp: clean_label_def label_val_def py_str_def split: if_splits)

lemma clean_label_Inl: "clean_label t v = Inl e \<Longrightarrow> e = ValueError"
  by (auto simp: clean_label_def py_str_def split: if_splits)

lemma clean_label_safe: "safe t \<Longrightarrow> clean_label t v = Inr (label_val t v)"
  by (simp add: clean_label_def label_val_def py_str_def safe_def)

lemma rename_Inr: "rename t = Inr s \<Longrightarrow> s = name (left_val t)"
  by (cases "clean_label t (name t)")
     (auto simp: rename_def left_val_def split: if_splits dest: clean_label_Inr)

lemma relabel_Inr: "relabel t v = Inr s \<Longrightarrow> s = relabel_val t v"
  by (cases "clean_label t v")
     (auto simp: relabel_def relabel_val_def split: if_splits dest: clean_label_Inr)

lemma rename_Inl: "rename t = Inl e \<Longrightarrow> e = ValueError"
  by (cases "clean_label t (name t)")
     (auto simp: rename_def split: if_splits dest: clean_label_Inl)

lemma relabel_Inl: "relabel t v = Inl e \<Longrightarrow> e = ValueError"
  by (cases "clean_label t v")
     (auto simp: relabel_def split: if_splits dest: clean_label_Inl)

lemma rename_safe: "safe t \<Longrightarrow> rename t = Inr (name (left_val t))"
  by (simp add: rename_def left_val_def clean_label_safe)

lemma relabel_safe: "safe t \<Longrightarrow> relabel t v = Inr (relabel_val t v)"
  by (simp add: relabel_def relabel_val_def clean_label_safe)

lemma mark_left_Inr: "mark_left t = Inr t' \<Longrightarrow> t' = left_val t"
  by (auto simp: mark_left_def left_val_def split: sum.splits
           dest!: rename_Inr relabel_Inr)

lemma mark_left_Inl: "mark_left t = Inl e \<Longrightarrow> e = ValueError"
  by (auto simp: mark_left_def split: sum.splits dest: rename_Inl relabel_Inl)

lemma mark_left_safe: "safe t \<Longrightarrow> mark_left t = Inr (left_val t)"
  by (simp add: mark_left_def rename_safe relabel_safe left_val_def)

lemma stereo_step_append:
  "stereo_step sm (pre @ t1 # t2 # ts) (length pre) = Inr ts' \<Longrightarrow>
   ts' = pre @ fst (pair_step sm t1 t2) # snd (pair_step sm t1 t2) # ts"
  by (auto simp: stereo_step_def pair_step_def nth_append list_update_append Let_def
           split: if_splits sum.splits dest: mark_left_Inr)

lemma stereo_step_safe:
  "safe t1 \<Longrightarrow>
   stereo_step sm (pre @ t1 # t2 # ts) (length pre) =
     Inr (pre @ fst (pair_step sm t1 t2) # snd (pair_step sm t1 t2) # ts)"
  by (simp add: stereo_step_def pair_step_def nth_append list_update_append Let_def
        mark_left_safe)

lemma stereo_step_Inl: "stereo_step sm ts i = Inl e \<Longrightarrow> e = ValueError"
  by (auto simp: stereo_step_def Let_def split: if_splits sum.splits dest: mark_left_Inl)

lemma step_on_Inr: "step_on sm (Inr ts) i = stereo_step sm ts i"
  by (simp add: step_on_def)

lemma foldl_step_on_Inl: "foldl (step_on sm) (Inl e) is = Inl e"
  by (induction "is") (simp_all add: step_on_def)

lemma upt_pair_scan:
  "[length pre ..< length pre + (length (t1 # t2 # ts) - 1)] =
   length pre # [length (pre @ [a]) ..< length (pre @ [a]) + (length (b # ts) - 1)]"
  using upt_conv_Cons [of "length pre" "length pre + Suc (length ts)"]
  by (simp del: upt_Suc)

lemma foldl_stereo_step:
  "foldl (step_on sm) (Inr (pre @ xs)) [length pre ..< length pre + (length xs - 1)] = Inr out \<Longrightarrow>
   out = pre @ pair_scan sm xs"
proof (induction sm xs arbitrary: pre rule: pair_scan.induct)
  case (1 sm t1 t2 ts)
  let ?a = "fst (pair_step sm t1 t2)" and ?b = "snd (pair_step sm t1 t2)"
  let ?rest = "[length (pre @ [?a]) ..< length (pre @ [?a]) + (length (?b # ts) - 1)]"
  have f: "foldl (step_on sm) (stereo_step sm (pre @ t1 # t2 # ts) (length pre)) ?rest = Inr out"
    using "1.prems" unfolding upt_pair_scan [of pre t1 t2 ts ?a ?b]
    by (simp only: foldl_Cons step_on_Inr)
  show ?case
  proof (cases "stereo_step sm (pre @ t1 # t2 # ts) (length pre)")
    case (Inl e)
    then show ?thesis
      using f by (simp add: foldl_step_on_Inl)
  next
    case (Inr ts')
    then have "ts' = (pre @ [?a]) @ ?b # ts"
      using stereo_step_append [of sm pre t1 t2 ts ts'] by simp
    then have "foldl (step_on sm) (Inr ((pre @ [?a]) @ ?b # ts)) ?rest = Inr out"
      using f Inr by simp
    then have "out = (pre @ [?a]) @ pair_scan sm (?b # ts)"
      by (rule "1.IH")
    then show ?thesis by simp
  qed
qed simp_all

lemma safe_mark_right: "safe (mark_right t) = safe t"
  by (simp add: safe_def mark_right_def)

lemma foldl_stereo_step_safe:
  "\<forall>t\<in>set xs. safe t \<Longrightarrow>
   foldl (step_on sm) (Inr (pre @ xs)) [length pre ..< length pre + (length xs - 1)] =
     Inr (pre @ pair_scan sm xs)"
proof (induction sm xs arbitrary: pre rule: pair_scan.induct)
  case (1 sm t1 t2 ts)
  let ?a = "fst (pair_step sm t1 t2)" and ?b = "snd (pair_step sm t1 t2)"
  let ?rest = "[length (pre @ [?a]) ..< length (pre @ [?a]) + (length (?b # ts) - 1)]"
  have "safe ?b"
    using "1.prems" snd_pair_step_cases [of sm t1 t2] by (auto simp: safe_mark_right)
  then have s: "\<forall>t\<in>set (?b # ts). safe t"
    using "1.prems" by simp
  have st: "stereo_step sm (pre @ t1 # t2 # ts) (length pre) = Inr ((pre @ [?a]) @ ?b # ts)"
    using "1.prems" by (simp add: stereo_step_safe)
  have "foldl (step_on sm) (Inr (pre @ t1 # t2 # ts))
          [length pre ..< length pre + (length (t1 # t2 # ts) - 1)] =
        foldl (step_on sm) (Inr ((pre @ [?a]) @ ?b # ts)) ?rest"
    unfolding upt_pair_scan [of pre t1 t2 ts ?a ?b]
    by (simp only: foldl_Cons step_on_Inr st)
  also have "\<dots> = Inr ((pre @ [?a]) @ pair_scan sm (?b # ts))"
    using s by (rule "1.IH")
  finally show ?case by simp
qed simp_all

lemma stereo_pass_scan: "stereo_pass sm ts = Inr out \<Longrightarrow> out = pair_scan sm ts"
  using foldl_stereo_step [of sm "[]" ts out] by (simp add: stereo_pass_def)

lemma stereo_pass_safe: "\<forall>t\<in>set ts. safe t \<Longrightarrow> stereo_pass sm ts = Inr (pair_scan sm ts)"
  using foldl_stereo_step_safe [of ts sm "[]"] by (simp add: stereo_pass_def)

lemma stereo_pass_shape:
  "stereo_pass sm ts = Inr out \<Longrightarrow> i < length ts \<Longrightarrow> shape (ts ! i) (out ! i)"
  by (auto dest!: stereo_pass_scan simp: pair_scan_shape)

lemma length_stereo_pass: "stereo_pass sm ts = Inr out \<Longrightarrow> length out = length ts"
  by (auto dest!: stereo_pass_scan)

subsection \<open>The claims about the pass\<close>

text \<open>
  Claim C10. When the pass starts from tracks without stereo marks (as the resolver
  builds them), no track of the list it returns has both the left and the right mark.
\<close>

theorem stereo_pass_not_both:
  assumes "\<forall>t\<in>set ts. \<not> stereo_L t \<and> \<not> stereo_R t"
    and "stereo_pass sm ts = Inr out"
  shows "\<forall>t\<in>set out. \<not> (stereo_L t \<and> stereo_R t)"
proof
  fix t
  assume "t \<in> set out"
  then obtain i where i: "i < length ts" and t: "t = out ! i"
    using length_stereo_pass [OF assms(2)] by (auto simp: in_set_conv_nth)
  have "\<not> stereo_L (ts ! i)" "\<not> stereo_R (ts ! i)"
    using assms(1) i by auto
  then show "\<not> (stereo_L t \<and> stereo_R t)"
    using stereo_pass_shape [OF assms(2) i] t
    by (auto simp: shape_def left_val_def mark_right_def)
qed

theorem stereo_pass_not_both_witness:
  "\<not> stereo_L hall_L \<and> \<not> stereo_R hall_L \<and> \<not> stereo_L hall_R \<and> \<not> stereo_R hall_R \<and>
   (\<exists>out. stereo_pass Map.empty [hall_L, hall_R] = Inr out \<and> length out = 2 \<and>
      \<not> (stereo_L (out ! 0) \<and> stereo_R (out ! 0)) \<and>
      \<not> (stereo_L (out ! 1) \<and> stereo_R (out ! 1)))"
proof -
  have f: "\<not> stereo_L hall_L \<and> \<not> stereo_R hall_L \<and> \<not> stereo_L hall_R \<and> \<not> stereo_R hall_R"
    by (simp add: hall_L_def hall_R_def)
  then have a: "\<forall>t\<in>set [hall_L, hall_R]. \<not> stereo_L t \<and> \<not> stereo_R t"
    by simp
  have "\<forall>t\<in>set [hall_L, hall_R]. safe t"
    by code_simp
  then obtain out where o: "stereo_pass Map.empty [hall_L, hall_R] = Inr out"
    using stereo_pass_safe by blast
  have l: "length out = 2"
    using length_stereo_pass [OF o] by simp
  then have m: "out ! 0 \<in> set out" "out ! 1 \<in> set out"
    by (simp_all del: One_nat_def)
  have "\<forall>t\<in>set out. \<not> (stereo_L t \<and> stereo_R t)"
    by (rule stereo_pass_not_both [OF a o])
  then have "\<not> (stereo_L (out ! 0) \<and> stereo_R (out ! 0))"
    and "\<not> (stereo_L (out ! 1) \<and> stereo_R (out ! 1))"
    using m by blast+
  then show ?thesis
    using f o l by blast
qed

text \<open>
  Claim C3 as stated: a second application of the pass to its own result changes
  nothing. On the two tracks of the main bus named \<open>HALL\<close> the first application
  names the left track \<open>HALL\<close>; the second one pairs the same two tracks again by their
  references and takes the name for one with a trailing \<open>L\<close>.
\<close>

theorem stereo_pass_idempotent_counterexample:
  "map_sum id (map name) (stereo_pass Map.empty [hall_L, hall_R]) = Inr [''HALL'', ''HALL R''] \<and>
   map_sum id (map name) (two_passes Map.empty [hall_L, hall_R]) = Inr [''HAL'', ''HALL R'']"
  by code_simp

text \<open>
  Claim C3, amended. Starting from tracks without stereo marks, a second application of
  the pass to the list the first one returned keeps the length of the list, leaves
  every track that carries the right mark exactly as it is (it is never taken as a left
  track again), leaves every unrouted track exactly as it is, and keeps the left mark
  and the playback input index of every track that carries the left mark. The name and
  the labels of a left track are not covered: the second application may rewrite them
  again.
\<close>

theorem stereo_pass_twice:
  assumes "\<forall>t\<in>set ts. \<not> stereo_L t \<and> \<not> stereo_R t"
    and "stereo_pass sm ts = Inr once"
    and "stereo_pass sm once = Inr twice"
  shows "length twice = length ts \<and>
    (\<forall>i<length ts.
       (stereo_R (once ! i) \<or> is_empty_routing (once ! i) \<longrightarrow> twice ! i = once ! i) \<and>
       (stereo_L (once ! i) \<longrightarrow>
          stereo_L (twice ! i) \<and> reaper_input (twice ! i) = reaper_input (once ! i)))"
proof (intro conjI allI impI)
  show "length twice = length ts"
    using length_stereo_pass [OF assms(2)] length_stereo_pass [OF assms(3)] by simp
next
  fix i
  assume i: "i < length ts"
  have s1: "shape (ts ! i) (once ! i)"
    by (rule stereo_pass_shape [OF assms(2) i])
  have s2: "shape (once ! i) (twice ! i)"
    using length_stereo_pass [OF assms(2)] i by (intro stereo_pass_shape [OF assms(3)]) simp
  have nf: "\<not> stereo_L (ts ! i)" "\<not> stereo_R (ts ! i)"
    using assms(1) i by auto
  {
    assume "stereo_R (once ! i) \<or> is_empty_routing (once ! i)"
    then show "twice ! i = once ! i"
      using s2 by (auto simp: shape_def mark_right_idem)
  }
  {
    assume "stereo_L (once ! i)"
    then show "stereo_L (twice ! i)"
      using s2 by (auto simp: shape_def left_val_def mark_right_def)
  }
  {
    assume "stereo_L (once ! i)"
    then have "once ! i = left_val (ts ! i)"
      using s1 nf by (auto simp: shape_def mark_right_def)
    then have "reaper_input (once ! i) = 1024 + (slot (once ! i) - 1)"
      by (simp add: left_val_def)
    then show "reaper_input (twice ! i) = reaper_input (once ! i)"
      using s2 by (auto simp: shape_def left_val_def mark_right_def)
  }
qed

theorem stereo_pass_twice_witness:
  "\<not> stereo_L hall_L \<and> \<not> stereo_R hall_L \<and> \<not> stereo_L hall_R \<and> \<not> stereo_R hall_R \<and>
   (\<exists>once twice.
      stereo_pass Map.empty [hall_L, hall_R] = Inr once \<and>
      stereo_pass Map.empty once = Inr twice \<and>
      stereo_R (once ! 1) \<and> twice ! 1 = once ! 1 \<and>
      stereo_L (once ! 0) \<and> stereo_L (twice ! 0) \<and>
      reaper_input (once ! 0) = 1024 \<and> reaper_input (twice ! 0) = 1024)"
proof -
  let ?once = "pair_scan Map.empty [hall_L, hall_R]"
  let ?twice = "pair_scan Map.empty ?once"
  have f: "\<not> stereo_L hall_L \<and> \<not> stereo_R hall_L \<and> \<not> stereo_L hall_R \<and> \<not> stereo_R hall_R"
    by (simp add: hall_L_def hall_R_def)
  then have a: "\<forall>t\<in>set [hall_L, hall_R]. \<not> stereo_L t \<and> \<not> stereo_R t"
    by simp
  have "\<forall>t\<in>set [hall_L, hall_R]. safe t"
    by code_simp
  then have o: "stereo_pass Map.empty [hall_L, hall_R] = Inr ?once"
    by (rule stereo_pass_safe)
  have "\<forall>t\<in>set ?once. safe t"
    by code_simp
  then have t: "stereo_pass Map.empty ?once = Inr ?twice"
    by (rule stereo_pass_safe)
  have r: "stereo_R (?once ! 1)"
    by code_simp
  have l: "stereo_L (?once ! 0)"
    by code_simp
  have v: "reaper_input (?once ! 0) = 1024"
    by code_simp
  from stereo_pass_twice [OF a o t]
  have "\<forall>i<length [hall_L, hall_R].
       (stereo_R (?once ! i) \<or> is_empty_routing (?once ! i) \<longrightarrow> ?twice ! i = ?once ! i) \<and>
       (stereo_L (?once ! i) \<longrightarrow>
          stereo_L (?twice ! i) \<and> reaper_input (?twice ! i) = reaper_input (?once ! i))"
    by (rule conjunct2)
  moreover have "0 < length [hall_L, hall_R]" "1 < length [hall_L, hall_R]"
    by simp_all
  ultimately have "?twice ! 1 = ?once ! 1"
    and "stereo_L (?twice ! 0)"
    and "reaper_input (?twice ! 0) = reaper_input (?once ! 0)"
    using r l by blast+
  then have "stereo_pass Map.empty [hall_L, hall_R] = Inr ?once \<and>
      stereo_pass Map.empty ?once = Inr ?twice \<and>
      stereo_R (?once ! 1) \<and> ?twice ! 1 = ?once ! 1 \<and>
      stereo_L (?once ! 0) \<and> stereo_L (?twice ! 0) \<and>
      reaper_input (?once ! 0) = 1024 \<and> reaper_input (?twice ! 0) = 1024"
    using o t r l v by (simp only: simp_thms)
  then show ?thesis
    using f by blast
qed

section \<open>Properties of the resolver\<close>

subsection \<open>The tracks of the slots\<close>

lemma length_slot_tracks [simp]: "length (slot_tracks cfg refs r) = nat (OUT_COUNT cfg)"
  by (simp add: slot_tracks_def)

lemma nth_slot_tracks:
  "i < nat (OUT_COUNT cfg) \<Longrightarrow>
   slot_tracks cfg refs r ! i =
     resolve_slot cfg r (gather_sources r refs) (gather_channels r) (int i + 1)"
  by (simp add: slot_tracks_def add.commute)

lemma resolve_slot_fields:
  "slot (resolve_slot cfg r sh ch s) = s"
  "reaper_input (resolve_slot cfg r sh ch s) = s - 1"
  "stereo_L (resolve_slot cfg r sh ch s) = False"
  "stereo_R (resolve_slot cfg r sh ch s) = False"
  "is_empty_routing (resolve_slot cfg r sh ch s) = empty_routing cfg r s"
  "norm_grp (resolve_slot cfg r sh ch s) = hw_grp (slot_direct cfg r s)"
  "in_num (resolve_slot cfg r sh ch s) = hw_in (slot_direct cfg r s)"
  "name (resolve_slot cfg r sh ch s) = d_name (slot_described cfg r sh ch s)"
  by (simp_all add: resolve_slot_def Let_def)

lemma resolve_slot_rgb:
  "(color_r (resolve_slot cfg r sh ch s), color_g (resolve_slot cfg r sh ch s),
    color_b (resolve_slot cfg r sh ch s)) =
   pick_rgb cfg (hw_grp (slot_direct cfg r s)) (empty_routing cfg r s)
     (force_uncolored (slot_described cfg r sh ch s)) (d_col (slot_described cfg r sh ch s))"
  by (simp add: resolve_slot_def Let_def)

lemma shape_fixed:
  assumes "shape t t'"
  shows "slot t' = slot t" "is_empty_routing t' = is_empty_routing t"
    "color_r t' = color_r t" "color_g t' = color_g t" "color_b t' = color_b t"
    "norm_grp t' = norm_grp t" "in_num t' = in_num t"
  using assms by (auto simp: shape_def left_val_def mark_right_def)

lemma shape_empty: "shape t t' \<Longrightarrow> is_empty_routing t \<Longrightarrow> t' = t"
  by (auto simp: shape_def)

lemma neutral_palette: "the (WING_COLORS 0) = neutral_rgb"
  by (simp add: WING_COLORS_def neutral_rgb_def)

lemma norm_OFF: "norm (strip ''OFF'') = ''OFF''"
  by code_simp

lemma norm_Nil: "norm (strip []) = []"
  by code_simp

lemma empty_routing_absent:
  "getv r (out_addr cfg s ''grp'') = None \<or> getv r (out_addr cfg s ''grp'') = Some ''OFF'' \<Longrightarrow>
   empty_routing cfg r s"
  by (auto simp: empty_routing_def u_grp_of_def por_def norm_OFF norm_Nil)

lemma pick_rgb_empty: "pick_rgb cfg g True True c = neutral_rgb"
  by (simp add: pick_rgb_def fixed_applies_def neutral_palette)

lemma slot_described_empty:
  "empty_routing cfg r s \<Longrightarrow> slot_described cfg r sh ch s = describe_empty s"
  by (simp add: slot_described_def describe_def)

subsection \<open>The list of a completed pass\<close>

lemma length_paired_tracks [simp]: "length (paired_tracks cfg refs r) = nat (OUT_COUNT cfg)"
  by (simp add: paired_tracks_def)

lemma paired_tracks_shape:
  "i < nat (OUT_COUNT cfg) \<Longrightarrow>
   shape (resolve_slot cfg r (gather_sources r refs) (gather_channels r) (int i + 1))
         (paired_tracks cfg refs r ! i)"
  using pair_scan_shape [of i "slot_tracks cfg refs r" "src_modes_of refs r"]
  by (simp add: paired_tracks_def nth_slot_tracks)

lemma resolve_tracks_paired:
  "resolve_tracks cfg refs r = Inr out \<Longrightarrow> out = paired_tracks cfg refs r"
  by (simp add: resolve_tracks_def paired_tracks_def stereo_pass_scan)

lemma resolve_tracks_safe:
  "\<forall>t\<in>set (slot_tracks cfg refs r). safe t \<Longrightarrow>
   resolve_tracks cfg refs r = Inr (paired_tracks cfg refs r)"
  by (simp add: resolve_tracks_def paired_tracks_def stereo_pass_safe)

text \<open>
  The list returned by a run is the list of \<open>resolve_tracks\<close> for the replies of that
  run, without the two reference fields; the remaining fields are kept. The theorems
  below are stated for \<open>resolve_tracks\<close> and \<open>slot_tracks\<close> with arbitrary replies
  and references, hence for those of every run.
\<close>

lemma fetch_wing_tracks:
  "fetch_wing cfg w = Inr out \<Longrightarrow>
   \<exists>refs r tracks. fetch_replies cfg w = Inr (refs, r) \<and>
     resolve_tracks cfg refs r = Inr tracks \<and> out = map emitted.truncate tracks"
  by (auto simp: fetch_wing_def split: sum.splits)

lemma truncate_fields:
  "slot (emitted.truncate t) = slot t"
  "name (emitted.truncate t) = name t"
  "color_r (emitted.truncate t) = color_r t"
  "color_g (emitted.truncate t) = color_g t"
  "color_b (emitted.truncate t) = color_b t"
  "ch_name (emitted.truncate t) = ch_name t"
  "src_name (emitted.truncate t) = src_name t"
  "hw_name (emitted.truncate t) = hw_name t"
  "reaper_input (emitted.truncate t) = reaper_input t"
  "stereo_L (emitted.truncate t) = stereo_L t"
  "stereo_R (emitted.truncate t) = stereo_R t"
  "is_empty_routing (emitted.truncate t) = is_empty_routing t"
  by (simp_all add: emitted.truncate_def)

lemma unrouted_paired:
  assumes "1 \<le> s" and "s \<le> OUT_COUNT cfg"
    and "getv r (out_addr cfg s ''grp'') = None \<or> getv r (out_addr cfg s ''grp'') = Some ''OFF''"
  shows "is_empty_routing (paired_tracks cfg refs r ! nat (s - 1)) \<and>
         slot (paired_tracks cfg refs r ! nat (s - 1)) = s \<and>
         name (paired_tracks cfg refs r ! nat (s - 1)) = ''(INPUT '' @ str_int s @ '' NOT ROUTED)'' \<and>
         (color_r (paired_tracks cfg refs r ! nat (s - 1)),
          color_g (paired_tracks cfg refs r ! nat (s - 1)),
          color_b (paired_tracks cfg refs r ! nat (s - 1))) = neutral_rgb"
proof -
  let ?t = "resolve_slot cfg r (gather_sources r refs) (gather_channels r) s"
  have i: "nat (s - 1) < nat (OUT_COUNT cfg)" and s: "int (nat (s - 1)) + 1 = s"
    using assms(1,2) by auto
  have e: "empty_routing cfg r s"
    using assms(3) by (rule empty_routing_absent)
  have "shape ?t (paired_tracks cfg refs r ! nat (s - 1))"
    using paired_tracks_shape [OF i, of r refs] s by simp
  then have eq: "paired_tracks cfg refs r ! nat (s - 1) = ?t"
    using e by (auto intro: shape_empty simp: resolve_slot_fields)
  have "(color_r ?t, color_g ?t, color_b ?t) = neutral_rgb"
    unfolding resolve_slot_rgb using e
    by (simp add: slot_described_empty describe_empty_def pick_rgb_empty)
  then show ?thesis
    unfolding eq using e
    by (simp add: resolve_slot_fields slot_described_empty describe_empty_def)
qed

lemma force_uncolored_CH:
  "\<not> empty_routing cfg r s \<Longrightarrow> force_uncolored (slot_described cfg r sh ch s) \<Longrightarrow>
   NAME_MODE cfg = ''CH''"
  by (auto simp: slot_described_def describe_def describe_bus_def describe_hw_def Let_def
           split: if_splits option.splits prod.splits)

lemma muted_paired:
  assumes "1 \<le> s" and "s \<le> OUT_COUNT cfg"
    and "\<not> empty_routing cfg r s"
    and "force_uncolored (slot_described cfg r (gather_sources r refs) (gather_channels r) s)"
  shows "NAME_MODE cfg = ''CH'' \<and>
         (color_r (paired_tracks cfg refs r ! nat (s - 1)),
          color_g (paired_tracks cfg refs r ! nat (s - 1)),
          color_b (paired_tracks cfg refs r ! nat (s - 1))) =
         (if FORCE_HW_COLORS cfg \<and> hw_grp (slot_direct cfg r s) \<in> dom HW_FIXED_COLORS
          then the (HW_FIXED_COLORS (hw_grp (slot_direct cfg r s)))
          else neutral_rgb)"
proof -
  let ?t = "resolve_slot cfg r (gather_sources r refs) (gather_channels r) s"
  have i: "nat (s - 1) < nat (OUT_COUNT cfg)" and s: "int (nat (s - 1)) + 1 = s"
    using assms(1,2) by auto
  have m: "NAME_MODE cfg = ''CH''"
    using assms(3,4) by (rule force_uncolored_CH)
  have sh: "shape ?t (paired_tracks cfg refs r ! nat (s - 1))"
    using paired_tracks_shape [OF i, of r refs] s by simp
  have "(color_r ?t, color_g ?t, color_b ?t) =
         (if FORCE_HW_COLORS cfg \<and> hw_grp (slot_direct cfg r s) \<in> dom HW_FIXED_COLORS
          then the (HW_FIXED_COLORS (hw_grp (slot_direct cfg r s)))
          else neutral_rgb)"
    unfolding resolve_slot_rgb using assms(3,4) m
    by (simp add: pick_rgb_def fixed_applies_def use_hw_color_def neutral_palette)
  then show ?thesis
    using m shape_fixed(3,4,5) [OF sh] by simp
qed

lemma replace_LR_simps:
  "replace '' L'' '' R'' [] = []"
  "replace '' L'' '' R'' [a] = [a]"
  "replace '' L'' '' R'' (a # b # cs) =
     (if a = CHR '' '' \<and> b = CHR ''L'' then CHR '' '' # CHR ''R'' # replace '' L'' '' R'' cs
      else a # replace '' L'' '' R'' (b # cs))"
  by (subst replace.simps, simp)+

lemma length_replace_LR: "length (replace '' L'' '' R'' s) = length s"
  by (induction s rule: induct_list012) (simp_all add: replace_LR_simps)

lemma replace_LR_hd:
  "replace '' L'' '' R'' (b # cs) = x # xs \<Longrightarrow> x = CHR ''L'' \<Longrightarrow> b = CHR ''L''"
  by (cases cs) (auto simp: replace_LR_simps split: if_splits)

lemma replace_LR_no_L: "\<not> contains '' L'' (replace '' L'' '' R'' s)"
proof (induction s rule: induct_list012)
  case 1
  then show ?case by (simp add: replace_LR_simps)
next
  case (2 x)
  then show ?case by (simp add: replace_LR_simps)
next
  case (3 a b cs)
  show ?case
  proof (cases "a = CHR '' '' \<and> b = CHR ''L''")
    case True
    then show ?thesis
      using 3(1) by (simp add: replace_LR_simps)
  next
    case False
    obtain x xs where c: "replace '' L'' '' R'' (b # cs) = x # xs"
      using length_replace_LR [of "b # cs"] by (cases "replace '' L'' '' R'' (b # cs)") auto
    have "\<not> (a = CHR '' '' \<and> x = CHR ''L'')"
      using False replace_LR_hd [OF c] by blast
    then show ?thesis
      using False 3(2) c by (auto simp: replace_LR_simps)
  qed
qed

lemma contains_drop:
  "take (length sub) (drop i s) = sub \<Longrightarrow> i \<le> length s \<Longrightarrow> contains sub s"
proof (induction s arbitrary: i)
  case Nil
  then show ?case by simp
next
  case (Cons c cs)
  then show ?case by (cases i) auto
qed

lemma endswith_contains: "endswith s suf \<Longrightarrow> contains suf s"
  by (rule contains_drop [of suf "length s - length suf"]) (auto simp: endswith_def)

lemma endswith_append: "endswith s suf \<Longrightarrow> endswith (x @ s) suf"
  by (auto simp: endswith_def)

lemma endswith_Cons: "endswith s suf \<Longrightarrow> endswith (c # s) suf"
  using endswith_append [of s suf "[c]"] by simp

lemma endswith_refl: "endswith s s"
  by (simp add: endswith_def)

lemma not_right_target:
  assumes "name t = [] \<or> endswith (name t) '' L''" and "in_num t mod 2 = 1"
  shows "\<not> is_stereo sm u t"
proof -
  have "\<not> (name u \<noteq> [] \<and> name t = replace '' L'' '' R'' (name u))"
  proof
    assume a: "name u \<noteq> [] \<and> name t = replace '' L'' '' R'' (name u)"
    then have "length (name t) = length (name u)"
      by (simp add: length_replace_LR)
    then have "name t \<noteq> []"
      using a by auto
    then have "contains '' L'' (name t)"
      using assms(1) by (auto intro: endswith_contains)
    then show False
      using a replace_LR_no_L by simp
  qed
  moreover have "\<not> (in_num u mod 2 = 1 \<and> in_num t = in_num u + 1)"
    using assms(2) by presburger
  ultimately show ?thesis
    by (auto simp: is_stereo_def)
qed

lemma side_odd: "n mod 2 = 1 \<Longrightarrow> side n = '' L''"
  by (simp add: side_def)

lemma bus_odd_name:
  assumes "\<not> empty_routing cfg r s"
    and "hw_grp (slot_direct cfg r s) \<in> set [''MAIN'', ''BUS'', ''MTX'']"
    and "hw_in (slot_direct cfg r s) mod 2 = 1"
  shows "d_name (slot_described cfg r sh ch s) = [] \<or>
         endswith (d_name (slot_described cfg r sh ch s)) '' L''"
proof -
  have "slot_described cfg r sh ch s = describe_bus cfg r (slot_direct cfg r s)"
    using assms(1,2) by (simp add: slot_described_def describe_def)
  then show ?thesis
    using side_odd [OF assms(3)]
    by (auto simp: describe_bus_def Let_def intro!: endswith_append endswith_Cons endswith_refl)
qed

lemma config_line_count:
  "OUT_COUNT cfg \<in> {48, 64} \<Longrightarrow> OUT_COUNT (config_line cfg line) \<in> {48, 64}"
  by (auto simp: config_line_def Let_def split: list.splits)

lemma foldl_config_count:
  "OUT_COUNT cfg \<in> {48, 64} \<Longrightarrow> OUT_COUNT (foldl config_line cfg ls) \<in> {48, 64}"
proof (induction ls arbitrary: cfg)
  case Nil
  then show ?case by simp
next
  case (Cons l ls)
  have "OUT_COUNT (config_line cfg l) \<in> {48, 64}"
    using Cons.prems by (rule config_line_count)
  then have "OUT_COUNT (foldl config_line (config_line cfg l) ls) \<in> {48, 64}"
    by (rule Cons.IH)
  then show ?case by simp
qed

lemma load_config_count: "OUT_COUNT (load_config cf) \<in> {48, 64}"
proof (cases cf)
  case None
  then show ?thesis by (simp add: load_config_def default_config_def)
next
  case (Some ls)
  have "OUT_COUNT default_config \<in> {48, 64}"
    by (simp add: default_config_def)
  then have "OUT_COUNT (foldl config_line default_config ls) \<in> {48, 64}"
    by (rule foldl_config_count)
  then show ?thesis
    using Some by (simp add: load_config_def)
qed

lemma pair_scan_not_right:
  assumes "i < length ts" and "\<not> stereo_R (ts ! i)" and "\<And>u. \<not> is_stereo sm u (ts ! i)"
  shows "\<not> stereo_R (pair_scan sm ts ! i)"
proof (cases i)
  case 0
  then obtain t ts' where "ts = t # ts'"
    using assms(1) by (cases ts) auto
  then show ?thesis
    using 0 assms(2) by (simp add: scan_hd_R)
next
  case (Suc k)
  show ?thesis
  proof
    assume "stereo_R (pair_scan sm ts ! i)"
    then have "is_stereo sm (ts ! k) (ts ! (k + 1))"
      using pair_scan_backward [of k ts sm] assms(1,2) Suc by simp
    then show False
      using assms(3) Suc by simp
  qed
qed

lemma main_pair_paired:
  assumes "Suc i < nat (OUT_COUNT (load_config cf))"
    and "\<not> is_empty_routing (slot_tracks (load_config cf) refs r ! i)"
    and "\<not> is_empty_routing (slot_tracks (load_config cf) refs r ! Suc i)"
    and "norm_grp (slot_tracks (load_config cf) refs r ! i) = ''MAIN''"
    and "norm_grp (slot_tracks (load_config cf) refs r ! Suc i) = ''MAIN''"
    and "in_num (slot_tracks (load_config cf) refs r ! i) = 1"
    and "in_num (slot_tracks (load_config cf) refs r ! Suc i) = 2"
  shows "stereo_L (paired_tracks (load_config cf) refs r ! i) \<and>
         stereo_R (paired_tracks (load_config cf) refs r ! Suc i) \<and>
         reaper_input (paired_tracks (load_config cf) refs r ! i) =
           1024 + (slot (paired_tracks (load_config cf) refs r ! i) - 1) \<and>
         (\<forall>j<length (paired_tracks (load_config cf) refs r).
            \<not> stereo_L (paired_tracks (load_config cf) refs r ! j) \<longrightarrow>
              reaper_input (paired_tracks (load_config cf) refs r ! j) =
                slot (paired_tracks (load_config cf) refs r ! j) - 1 \<and>
              reaper_input (paired_tracks (load_config cf) refs r ! j) < 1024 \<and>
              reaper_input (paired_tracks (load_config cf) refs r ! j) <
                reaper_input (paired_tracks (load_config cf) refs r ! i))"
proof -
  let ?cfg = "load_config cf"
  let ?ts = "slot_tracks ?cfg refs r"
  let ?sm = "src_modes_of refs r"
  let ?out = "paired_tracks ?cfg refs r"
  let ?rs = "resolve_slot ?cfg r (gather_sources r refs) (gather_channels r)"
  have out: "?out = pair_scan ?sm ?ts"
    by (simp add: paired_tracks_def)
  have li: "i < nat (OUT_COUNT ?cfg)" and len: "i + 1 < length ?ts"
    using assms(1) by simp_all
  have ti: "?ts ! i = ?rs (int i + 1)"
    by (rule nth_slot_tracks [OF li])
  have routed: "\<not> empty_routing ?cfg r (int i + 1)"
    using assms(2) by (simp add: ti resolve_slot_fields)
  have grp: "hw_grp (slot_direct ?cfg r (int i + 1)) \<in> set [''MAIN'', ''BUS'', ''MTX'']"
    using assms(4) by (simp add: ti resolve_slot_fields)
  have odd: "hw_in (slot_direct ?cfg r (int i + 1)) mod 2 = 1"
    using assms(6) by (simp add: ti resolve_slot_fields)
  have nm: "name (?ts ! i) = [] \<or> endswith (name (?ts ! i)) '' L''"
    using bus_odd_name [OF routed grp odd] by (simp add: ti resolve_slot_fields)
  have "in_num (?ts ! i) mod 2 = 1"
    using assms(6) by simp
  then have never: "\<And>u. \<not> is_stereo ?sm u (?ts ! i)"
    using nm by (rule not_right_target [rotated])
  have "\<not> stereo_R (?ts ! i)"
    by (simp add: ti resolve_slot_fields)
  then have nr: "\<not> stereo_R (pair_scan ?sm ?ts ! i)"
    using never by (intro pair_scan_not_right) (use li in simp_all)
  have st: "is_stereo ?sm (?ts ! i) (?ts ! (i + 1))"
    using assms(4,5,6,7) by (simp add: is_stereo_def)
  have paired: "pair_scan ?sm ?ts ! i = left_val (?ts ! i) \<and>
                stereo_R (pair_scan ?sm ?ts ! (i + 1))"
    using len assms(2) nr assms(3) st by (intro pair_scan_forward) simp_all
  have count: "OUT_COUNT ?cfg \<le> 64"
    using load_config_count [of cf] by auto
  have left: "stereo_L (?out ! i)"
    and idx: "reaper_input (?out ! i) = 1024 + (slot (?out ! i) - 1)"
    and right: "stereo_R (?out ! Suc i)"
    using paired by (simp_all add: out left_val_def)
  have slot_i: "slot (?out ! i) = int i + 1"
    using paired by (simp add: out left_val_def ti resolve_slot_fields)
  have mono: "reaper_input (?out ! j) = slot (?out ! j) - 1 \<and>
              reaper_input (?out ! j) < 1024 \<and>
              reaper_input (?out ! j) < reaper_input (?out ! i)"
    if j: "j < length ?out" and nl: "\<not> stereo_L (?out ! j)" for j
  proof -
    have lj: "j < nat (OUT_COUNT ?cfg)"
      using j by simp
    have "shape (?rs (int j + 1)) (?out ! j)"
      by (rule paired_tracks_shape [OF lj])
    then have "?out ! j = ?rs (int j + 1) \<or> ?out ! j = mark_right (?rs (int j + 1))"
      using nl by (auto simp: shape_def left_val_def)
    then have "reaper_input (?out ! j) = int j \<and> slot (?out ! j) = int j + 1"
      by (auto simp: mark_right_def resolve_slot_fields)
    moreover have "int j < 64"
      using lj count by linarith
    ultimately show ?thesis
      using idx slot_i by simp
  qed
  show ?thesis
    using left right idx mono by blast
qed

lemma is_stereo_cases: "is_stereo sm t1 t2 \<Longrightarrow> name_match t1 t2 \<or> compatible_refs t1 t2"
  by (auto simp: is_stereo_def name_match_def compatible_refs_def split: if_splits)

lemma right_mark_paired:
  "(\<forall>i<length (paired_tracks cfg refs r).
      stereo_R (paired_tracks cfg refs r ! i) \<longrightarrow>
        0 < i \<and> stereo_L (paired_tracks cfg refs r ! (i - 1)) \<and>
        \<not> is_empty_routing (paired_tracks cfg refs r ! (i - 1)) \<and>
        \<not> is_empty_routing (paired_tracks cfg refs r ! i) \<and>
        is_stereo (src_modes_of refs r) (slot_tracks cfg refs r ! (i - 1)) (slot_tracks cfg refs r ! i) \<and>
        (name_match (slot_tracks cfg refs r ! (i - 1)) (slot_tracks cfg refs r ! i) \<or>
         compatible_refs (slot_tracks cfg refs r ! (i - 1)) (slot_tracks cfg refs r ! i))) \<and>
   (\<forall>t\<in>set (paired_tracks cfg refs r).
      is_empty_routing t \<longrightarrow> \<not> stereo_L t \<and> \<not> stereo_R t)"
proof (intro conjI allI ballI impI)
  let ?ts = "slot_tracks cfg refs r"
  let ?sm = "src_modes_of refs r"
  let ?out = "paired_tracks cfg refs r"
  have out: "?out = pair_scan ?sm ?ts"
    by (simp add: paired_tracks_def)
  have nof: "\<not> stereo_L (?ts ! j) \<and> \<not> stereo_R (?ts ! j)" if "j < nat (OUT_COUNT cfg)" for j
    using that by (simp add: nth_slot_tracks resolve_slot_fields)
  {
    fix i
    assume i: "i < length ?out" and R: "stereo_R (?out ! i)"
    have li: "i < nat (OUT_COUNT cfg)"
      using i by simp
    have pos: "0 < i"
    proof (rule ccontr)
      assume "\<not> 0 < i"
      then have z: "i = 0" by simp
      have "0 < length ?ts"
        using li by simp
      then obtain t ts' where c: "?ts = t # ts'"
        by (cases ?ts) auto
      have "stereo_R (?ts ! 0)"
        using R z scan_hd_R [of ?sm t ts'] by (simp add: out c)
      then show False
        using nof [OF li] z by simp
    qed
    then obtain k where k: "i = Suc k"
      by (cases i) auto
    have bw: "\<not> is_empty_routing (?ts ! k) \<and> \<not> is_empty_routing (?ts ! (k + 1)) \<and>
        \<not> stereo_R (pair_scan ?sm ?ts ! k) \<and> is_stereo ?sm (?ts ! k) (?ts ! (k + 1)) \<and>
        pair_scan ?sm ?ts ! k = left_val (?ts ! k) \<and>
        pair_scan ?sm ?ts ! (k + 1) = mark_right (?ts ! (k + 1))"
    proof (rule pair_scan_backward)
      show "k + 1 < length ?ts" using li k by simp
      show "stereo_R (pair_scan ?sm ?ts ! (k + 1))" using R k by (simp add: out)
      show "\<not> stereo_R (?ts ! (k + 1))" using nof [OF li] k by simp
    qed
    show "0 < i" by (rule pos)
    show "stereo_L (?out ! (i - 1))"
      using bw k by (simp add: out left_val_def)
    show "\<not> is_empty_routing (?out ! (i - 1))"
      using bw k by (simp add: out left_val_def)
    show "\<not> is_empty_routing (?out ! i)"
      using bw k by (simp add: out mark_right_def)
    show "is_stereo ?sm (?ts ! (i - 1)) (?ts ! i)"
      using bw k by simp
    then show "name_match (?ts ! (i - 1)) (?ts ! i) \<or> compatible_refs (?ts ! (i - 1)) (?ts ! i)"
      by (rule is_stereo_cases)
  }
  {
    fix t
    assume "t \<in> set ?out" and e: "is_empty_routing t"
    then obtain j where j: "j < nat (OUT_COUNT cfg)" and t: "t = ?out ! j"
      by (auto simp: in_set_conv_nth)
    have sh: "shape (resolve_slot cfg r (gather_sources r refs) (gather_channels r) (int j + 1)) t"
      unfolding t by (rule paired_tracks_shape [OF j])
    then have "t = resolve_slot cfg r (gather_sources r refs) (gather_channels r) (int j + 1)"
      using e shape_fixed(2) [OF sh] by (auto intro: shape_empty)
    then show "\<not> stereo_L t" and "\<not> stereo_R t"
      by (simp_all add: resolve_slot_fields)
  }
qed

subsection \<open>The claims about the resolver\<close>

text \<open>
  Claim C4. For every configuration (any display mode, hardware colours forced or
  not), every reply dictionary and every slot of the run whose group address has no
  reply or the reply \<open>OFF\<close>, the track the resolver builds for that slot is marked
  unrouted, is named \<open>(INPUT s NOT ROUTED)\<close> and has the neutral colour, and so is the
  track of that slot in the list the pass returns.
\<close>

theorem unrouted_slot_placeholder:
  assumes "1 \<le> s" and "s \<le> OUT_COUNT cfg"
    and "getv r (out_addr cfg s ''grp'') = None \<or> getv r (out_addr cfg s ''grp'') = Some ''OFF''"
  shows "is_empty_routing (slot_tracks cfg refs r ! nat (s - 1)) \<and>
         slot (slot_tracks cfg refs r ! nat (s - 1)) = s \<and>
         name (slot_tracks cfg refs r ! nat (s - 1)) = ''(INPUT '' @ str_int s @ '' NOT ROUTED)'' \<and>
         (color_r (slot_tracks cfg refs r ! nat (s - 1)),
          color_g (slot_tracks cfg refs r ! nat (s - 1)),
          color_b (slot_tracks cfg refs r ! nat (s - 1))) = neutral_rgb \<and>
         (\<forall>out. resolve_tracks cfg refs r = Inr out \<longrightarrow>
            is_empty_routing (out ! nat (s - 1)) \<and>
            slot (out ! nat (s - 1)) = s \<and>
            name (out ! nat (s - 1)) = ''(INPUT '' @ str_int s @ '' NOT ROUTED)'' \<and>
            (color_r (out ! nat (s - 1)), color_g (out ! nat (s - 1)),
             color_b (out ! nat (s - 1))) = neutral_rgb)"
proof -
  let ?t = "resolve_slot cfg r (gather_sources r refs) (gather_channels r) s"
  let ?p = "paired_tracks cfg refs r ! nat (s - 1)"
  have i: "nat (s - 1) < nat (OUT_COUNT cfg)" and s: "int (nat (s - 1)) + 1 = s"
    using assms(1,2) by auto
  have e: "empty_routing cfg r s"
    using assms(3) by (rule empty_routing_absent)
  have t: "slot_tracks cfg refs r ! nat (s - 1) = ?t"
    using nth_slot_tracks [OF i, of refs r] s by simp
  have "shape ?t ?p"
    using paired_tracks_shape [OF i, of r refs] s by simp
  then have p: "?p = ?t"
    using e by (auto intro: shape_empty simp: resolve_slot_fields)
  have a: "is_empty_routing ?p \<and> slot ?p = s \<and>
      name ?p = ''(INPUT '' @ str_int s @ '' NOT ROUTED)'' \<and>
      (color_r ?p, color_g ?p, color_b ?p) = neutral_rgb"
    by (rule unrouted_paired [OF assms])
  then have "is_empty_routing ?t \<and> slot ?t = s \<and>
      name ?t = ''(INPUT '' @ str_int s @ '' NOT ROUTED)'' \<and>
      (color_r ?t, color_g ?t, color_b ?t) = neutral_rgb"
    unfolding p .
  then show ?thesis
    unfolding t using a by (auto dest!: resolve_tracks_paired)
qed

theorem unrouted_slot_placeholder_witness:
  "(1::int) \<le> 3 \<and> 3 \<le> OUT_COUNT default_config \<and>
   getv r_example (out_addr default_config 3 ''grp'') = Some ''OFF'' \<and>
   is_empty_routing (slot_tracks default_config [] r_example ! 2) \<and>
   (\<exists>out. resolve_tracks default_config [] r_example = Inr out \<and>
      is_empty_routing (out ! 2) \<and>
      name (out ! 2) = ''(INPUT 3 NOT ROUTED)'' \<and>
      (color_r (out ! 2), color_g (out ! 2), color_b (out ! 2)) = (60, 60, 60))"
proof -
  have a: "(1::int) \<le> 3" by simp
  have b: "3 \<le> OUT_COUNT default_config" by (simp add: default_config_def)
  have c: "getv r_example (out_addr default_config 3 ''grp'') = Some ''OFF''"
    by code_simp
  have n: "nat (3 - 1) = 2" by simp
  have s: "str_int 3 = ''3''" by code_simp
  have "\<forall>t\<in>set (slot_tracks default_config [] r_example). safe t"
    by code_simp
  then have o: "resolve_tracks default_config [] r_example =
      Inr (paired_tracks default_config [] r_example)"
    by (rule resolve_tracks_safe)
  show ?thesis
    using unrouted_slot_placeholder [OF a b disjI2 [OF c], of "[]"] a b c o
    unfolding n s by (auto simp: neutral_rgb_def)
qed

text \<open>
  Claim C5 as stated: a routed slot whose mute flag is set gets the neutral colour
  whatever the force-hardware-colours setting. With the setting on (the configuration
  file holds the line \<open>FORCE_HW_COLORS=1\<close>), slot 1 fed from the muted aux strip 1 is
  routed, its mute flag is set, and its colour in the list of the run is the fixed
  colour of the group AUX.
\<close>

theorem muted_colour_counterexample:
  "\<not> empty_routing (load_config (Some [''FORCE_HW_COLORS=1''])) r_muted 1 \<and>
   force_uncolored (slot_described (load_config (Some [''FORCE_HW_COLORS=1''])) r_muted
                      (gather_sources r_muted []) (gather_channels r_muted) 1) \<and>
   map_sum id (\<lambda>out. (color_r (out ! 0), color_g (out ! 0), color_b (out ! 0)))
     (resolve_tracks (load_config (Some [''FORCE_HW_COLORS=1''])) [] r_muted) =
     Inr (255, 255, 0)"
  by code_simp

text \<open>
  Claim C5, amended. The mute flag of a routed slot is only ever set in the channel
  name mode. For every routed slot whose mute flag is set, the colour of the track, as
  the resolver builds it and in the list the pass returns, is the fixed colour of the
  effective hardware group when hardware colours are forced and the group has a fixed
  colour, and the neutral colour otherwise.
\<close>

theorem muted_slot_colour:
  assumes "1 \<le> s" and "s \<le> OUT_COUNT cfg"
    and "\<not> empty_routing cfg r s"
    and "force_uncolored (slot_described cfg r (gather_sources r refs) (gather_channels r) s)"
  shows "NAME_MODE cfg = ''CH'' \<and>
         (color_r (slot_tracks cfg refs r ! nat (s - 1)),
          color_g (slot_tracks cfg refs r ! nat (s - 1)),
          color_b (slot_tracks cfg refs r ! nat (s - 1))) =
         (if FORCE_HW_COLORS cfg \<and> hw_grp (slot_direct cfg r s) \<in> dom HW_FIXED_COLORS
          then the (HW_FIXED_COLORS (hw_grp (slot_direct cfg r s)))
          else neutral_rgb) \<and>
         (\<forall>out. resolve_tracks cfg refs r = Inr out \<longrightarrow>
            (color_r (out ! nat (s - 1)), color_g (out ! nat (s - 1)),
             color_b (out ! nat (s - 1))) =
            (if FORCE_HW_COLORS cfg \<and> hw_grp (slot_direct cfg r s) \<in> dom HW_FIXED_COLORS
             then the (HW_FIXED_COLORS (hw_grp (slot_direct cfg r s)))
             else neutral_rgb))"
proof -
  let ?t = "resolve_slot cfg r (gather_sources r refs) (gather_channels r) s"
  let ?p = "paired_tracks cfg refs r ! nat (s - 1)"
  have i: "nat (s - 1) < nat (OUT_COUNT cfg)" and s: "int (nat (s - 1)) + 1 = s"
    using assms(1,2) by auto
  have t: "slot_tracks cfg refs r ! nat (s - 1) = ?t"
    using nth_slot_tracks [OF i, of refs r] s by simp
  have sh: "shape ?t ?p"
    using paired_tracks_shape [OF i, of r refs] s by simp
  have a: "NAME_MODE cfg = ''CH'' \<and>
         (color_r ?p, color_g ?p, color_b ?p) =
         (if FORCE_HW_COLORS cfg \<and> hw_grp (slot_direct cfg r s) \<in> dom HW_FIXED_COLORS
          then the (HW_FIXED_COLORS (hw_grp (slot_direct cfg r s)))
          else neutral_rgb)"
    by (rule muted_paired [OF assms])
  then have b: "(color_r ?t, color_g ?t, color_b ?t) =
         (if FORCE_HW_COLORS cfg \<and> hw_grp (slot_direct cfg r s) \<in> dom HW_FIXED_COLORS
          then the (HW_FIXED_COLORS (hw_grp (slot_direct cfg r s)))
          else neutral_rgb)"
    using shape_fixed(3,4,5) [OF sh] by simp
  have c: "(color_r (out ! nat (s - 1)), color_g (out ! nat (s - 1)),
             color_b (out ! nat (s - 1))) =
            (if FORCE_HW_COLORS cfg \<and> hw_grp (slot_direct cfg r s) \<in> dom HW_FIXED_COLORS
             then the (HW_FIXED_COLORS (hw_grp (slot_direct cfg r s)))
             else neutral_rgb)"
    if "resolve_tracks cfg refs r = Inr out" for out
    unfolding resolve_tracks_paired [OF that] using a by (rule conjunct2)
  show ?thesis
    unfolding t using a b c by blast
qed

theorem muted_slot_colour_witness:
  "(1::int) \<le> 1 \<and> 1 \<le> OUT_COUNT default_config \<and>
   \<not> empty_routing default_config r_muted 1 \<and>
   force_uncolored (slot_described default_config r_muted
                      (gather_sources r_muted []) (gather_channels r_muted) 1) \<and>
   (\<exists>out. resolve_tracks default_config [] r_muted = Inr out \<and>
      (color_r (out ! 0), color_g (out ! 0), color_b (out ! 0)) = (60, 60, 60))"
proof -
  have a: "(1::int) \<le> 1" by simp
  have b: "1 \<le> OUT_COUNT default_config" by (simp add: default_config_def)
  have c: "\<not> empty_routing default_config r_muted 1"
    by code_simp
  have d: "force_uncolored (slot_described default_config r_muted
                      (gather_sources r_muted []) (gather_channels r_muted) 1)"
    by code_simp
  have f: "\<not> FORCE_HW_COLORS default_config"
    by (simp add: default_config_def)
  have "\<forall>t\<in>set (slot_tracks default_config [] r_muted). safe t"
    by code_simp
  then have o: "resolve_tracks default_config [] r_muted =
      Inr (paired_tracks default_config [] r_muted)"
    by (rule resolve_tracks_safe)
  show ?thesis
    using muted_slot_colour [OF a b c d] a b c d f o by (auto simp: neutral_rgb_def)
qed

text \<open>
  Claim C6. The configuration is any result of \<open>load_config\<close>, the replies and the
  reference list are arbitrary. If the tracks built for two adjacent slots are both
  routed, both in group MAIN, with reference indices 1 and 2, then in the list the pass
  returns the first carries the left mark, the second the right mark, and the playback
  input index of the first is \<open>1024 + (slot - 1)\<close>. Every track without the left mark
  keeps its natural index \<open>slot - 1\<close>, which is below 1024, so the two ranges are
  disjoint.
\<close>

theorem main_pair_marked:
  assumes "Suc i < nat (OUT_COUNT (load_config cf))"
    and "\<not> is_empty_routing (slot_tracks (load_config cf) refs r ! i)"
    and "\<not> is_empty_routing (slot_tracks (load_config cf) refs r ! Suc i)"
    and "norm_grp (slot_tracks (load_config cf) refs r ! i) = ''MAIN''"
    and "norm_grp (slot_tracks (load_config cf) refs r ! Suc i) = ''MAIN''"
    and "in_num (slot_tracks (load_config cf) refs r ! i) = 1"
    and "in_num (slot_tracks (load_config cf) refs r ! Suc i) = 2"
    and "resolve_tracks (load_config cf) refs r = Inr out"
  shows "stereo_L (out ! i) \<and> stereo_R (out ! Suc i) \<and>
         reaper_input (out ! i) = 1024 + (slot (out ! i) - 1) \<and>
         (\<forall>j<length out.
            \<not> stereo_L (out ! j) \<longrightarrow>
              reaper_input (out ! j) = slot (out ! j) - 1 \<and>
              reaper_input (out ! j) < 1024 \<and>
              reaper_input (out ! j) < reaper_input (out ! i))"
  unfolding resolve_tracks_paired [OF assms(8)] by (rule main_pair_paired [OF assms(1-7)])

theorem main_pair_marked_witness:
  "Suc 0 < nat (OUT_COUNT (load_config None)) \<and>
   \<not> is_empty_routing (slot_tracks (load_config None) [] r_example ! 0) \<and>
   \<not> is_empty_routing (slot_tracks (load_config None) [] r_example ! Suc 0) \<and>
   norm_grp (slot_tracks (load_config None) [] r_example ! 0) = ''MAIN'' \<and>
   norm_grp (slot_tracks (load_config None) [] r_example ! Suc 0) = ''MAIN'' \<and>
   in_num (slot_tracks (load_config None) [] r_example ! 0) = 1 \<and>
   in_num (slot_tracks (load_config None) [] r_example ! Suc 0) = 2 \<and>
   (\<exists>out. resolve_tracks (load_config None) [] r_example = Inr out \<and>
      stereo_L (out ! 0) \<and> stereo_R (out ! Suc 0) \<and>
      reaper_input (out ! 0) = 1024 + (slot (out ! 0) - 1))"
proof -
  let ?C = "load_config None"
  let ?rs = "resolve_slot ?C r_example (gather_sources r_example []) (gather_channels r_example)"
  have a: "Suc 0 < nat (OUT_COUNT (load_config None))"
    by (simp add: load_config_def default_config_def)
  have t0: "slot_tracks ?C [] r_example ! 0 = ?rs 1"
    using nth_slot_tracks [of 0 ?C "[]" r_example] a by simp
  have t1: "slot_tracks ?C [] r_example ! Suc 0 = ?rs 2"
    using nth_slot_tracks [of "Suc 0" ?C "[]" r_example] a by simp
  have b: "\<not> is_empty_routing (slot_tracks (load_config None) [] r_example ! 0)"
    unfolding t0 resolve_slot_fields by code_simp
  have c: "\<not> is_empty_routing (slot_tracks (load_config None) [] r_example ! Suc 0)"
    unfolding t1 resolve_slot_fields by code_simp
  have d: "norm_grp (slot_tracks (load_config None) [] r_example ! 0) = ''MAIN''"
    unfolding t0 resolve_slot_fields by code_simp
  have e: "norm_grp (slot_tracks (load_config None) [] r_example ! Suc 0) = ''MAIN''"
    unfolding t1 resolve_slot_fields by code_simp
  have f: "in_num (slot_tracks (load_config None) [] r_example ! 0) = 1"
    unfolding t0 resolve_slot_fields by code_simp
  have g: "in_num (slot_tracks (load_config None) [] r_example ! Suc 0) = 2"
    unfolding t1 resolve_slot_fields by code_simp
  have "\<forall>t\<in>set (slot_tracks ?C [] r_example). safe t"
    by code_simp
  then have o: "resolve_tracks ?C [] r_example = Inr (paired_tracks ?C [] r_example)"
    by (rule resolve_tracks_safe)
  show ?thesis
    using main_pair_marked [OF a b c d e f g o] a b c d e f g o by blast
qed

text \<open>
  Claim C7 as stated requires the two tracks of a pair to share compatible references.
  On the device \<open>r_gtr\<close> the run returns a list in which the tracks of slots 1 and 2
  are paired, by their names \<open>Gtr L\<close> and \<open>Gtr R\<close>, while their references are in the
  groups CH and AUX.
\<close>

theorem right_mark_references_counterexample:
  "map_sum id (\<lambda>out. (stereo_L (out ! 0), stereo_R (out ! 1), norm_grp (out ! 0), norm_grp (out ! 1),
                       compatible_refs (out ! 0) (out ! 1)))
     (resolve_tracks default_config [] r_gtr) = Inr (True, True, ''CH'', ''AUX'', False)"
  by code_simp

text \<open>
  Claim C7, amended. In the track list a run returns, a track carries the right mark
  only if it is not the first one, the track before it carries the left mark, both are
  routed, and the two tracks as the resolver built them passed the test of the pass:
  their names match (left name ending in \<open> L\<close>, right name the left one with \<open> L\<close>
  replaced by \<open> R\<close>) or their references are compatible (same group, odd index and
  its successor). No unrouted track carries a left or a right mark.
\<close>

theorem right_mark_origin:
  assumes "resolve_tracks cfg refs r = Inr out"
  shows "(\<forall>i<length out.
      stereo_R (out ! i) \<longrightarrow>
        0 < i \<and> stereo_L (out ! (i - 1)) \<and>
        \<not> is_empty_routing (out ! (i - 1)) \<and>
        \<not> is_empty_routing (out ! i) \<and>
        is_stereo (src_modes_of refs r) (slot_tracks cfg refs r ! (i - 1)) (slot_tracks cfg refs r ! i) \<and>
        (name_match (slot_tracks cfg refs r ! (i - 1)) (slot_tracks cfg refs r ! i) \<or>
         compatible_refs (slot_tracks cfg refs r ! (i - 1)) (slot_tracks cfg refs r ! i))) \<and>
   (\<forall>t\<in>set out. is_empty_routing t \<longrightarrow> \<not> stereo_L t \<and> \<not> stereo_R t)"
  unfolding resolve_tracks_paired [OF assms] by (rule right_mark_paired)

theorem right_mark_origin_witness:
  "\<exists>out. resolve_tracks default_config [] r_gtr = Inr out \<and>
     1 < length out \<and> stereo_R (out ! 1) \<and> stereo_L (out ! 0) \<and>
     name_match (slot_tracks default_config [] r_gtr ! 0) (slot_tracks default_config [] r_gtr ! 1) \<and>
     out ! 2 \<in> set out \<and> is_empty_routing (out ! 2) \<and> \<not> stereo_R (out ! 2)"
proof -
  let ?out = "paired_tracks default_config [] r_gtr"
  let ?ts = "slot_tracks default_config [] r_gtr"
  have "\<forall>t\<in>set ?ts. safe t"
    by code_simp
  then have o: "resolve_tracks default_config [] r_gtr = Inr ?out"
    by (rule resolve_tracks_safe)
  have len: "length ?out = 48"
    by (simp add: default_config_def)
  have R: "stereo_R (?out ! 1)"
    by code_simp
  have e: "is_empty_routing (?out ! 2)"
    by code_simp
  have nc: "\<not> compatible_refs (?ts ! 0) (?ts ! 1)"
    by code_simp
  have m: "?out ! 2 \<in> set ?out"
    using len by (intro nth_mem) simp
  have l1: "1 < length ?out"
    using len by simp
  have "stereo_L (?out ! (1 - 1)) \<and>
        (name_match (?ts ! (1 - 1)) (?ts ! 1) \<or> compatible_refs (?ts ! (1 - 1)) (?ts ! 1))"
    using right_mark_origin [OF o] R l1 by blast
  moreover have "\<not> stereo_R (?out ! 2)"
    using right_mark_origin [OF o] m e by blast
  ultimately have "resolve_tracks default_config [] r_gtr = Inr ?out \<and>
     1 < length ?out \<and> stereo_R (?out ! 1) \<and> stereo_L (?out ! 0) \<and>
     name_match (?ts ! 0) (?ts ! 1) \<and>
     ?out ! 2 \<in> set ?out \<and> is_empty_routing (?out ! 2) \<and> \<not> stereo_R (?out ! 2)"
    using o l1 R e m nc by simp
  then show ?thesis ..
qed

subsection \<open>An index at the digit limit\<close>

text \<open>
  The conversions of the pass are the only ones of the source outside a \<open>try\<close>. A
  reply that \<open>int\<close> accepts can have \<open>MAX_STR_DIGITS\<close> digits; the largest such number
  can be formatted, its successor cannot.
\<close>

lemma MAX_STR_DIGITS_pos: "0 < MAX_STR_DIGITS"
  by (simp add: MAX_STR_DIGITS_def)

lemma length_str_nat_pos: "0 < length (str_nat n)"
  by (subst str_nat.simps) simp

lemma length_str_nat_le:
  "0 < k \<Longrightarrow> length (str_nat n) \<le> k \<longleftrightarrow> n < 10 ^ k"
proof (induction k arbitrary: n)
  case 0
  then show ?case by simp
next
  case (Suc k)
  show ?case
  proof (cases "n < 10")
    case True
    have "(1::nat) \<le> 10 ^ k"
      by simp
    then have "n < 10 * 10 ^ k"
      using True by linarith
    then have "n < 10 ^ Suc k"
      by simp
    moreover have "length (str_nat n) = 1"
      using True by (subst str_nat.simps) simp
    ultimately show ?thesis by simp
  next
    case False
    have l: "length (str_nat n) = Suc (length (str_nat (n div 10)))"
      using False by (subst str_nat.simps) simp
    show ?thesis
    proof (cases k)
      case 0
      then show ?thesis
        using False l length_str_nat_pos [of "n div 10"] by simp
    next
      case (Suc j)
      then have "length (str_nat (n div 10)) \<le> k \<longleftrightarrow> n div 10 < 10 ^ k"
        using Suc.IH [of "n div 10"] by simp
      moreover have "n div 10 < 10 ^ k \<longleftrightarrow> n < 10 ^ k * 10"
        by (rule div_less_iff_less_mult) simp
      ultimately show ?thesis
        using l by (simp add: mult.commute)
    qed
  qed
qed

lemma nat_abs_nines: "nat \<bar>10 ^ k - 1 :: int\<bar> = 10 ^ k - 1"
proof -
  have "(1::int) \<le> 10 ^ k" by simp
  then have "nat \<bar>10 ^ k - 1 :: int\<bar> = nat (10 ^ k - 1)" by simp
  also have "\<dots> = nat (10 ^ k) - nat 1"
    by (rule nat_diff_distrib) simp_all
  also have "\<dots> = 10 ^ k - 1"
    by (simp add: nat_power_eq)
  finally show ?thesis .
qed

lemma fits_nines: "fits (10 ^ MAX_STR_DIGITS - 1)"
proof -
  have "(10::nat) ^ MAX_STR_DIGITS - 1 < 10 ^ MAX_STR_DIGITS" by simp
  then show ?thesis
    unfolding fits_def nat_abs_nines
    using length_str_nat_le [OF MAX_STR_DIGITS_pos] by blast
qed

lemma not_fits_succ: "\<not> fits (10 ^ MAX_STR_DIGITS - 1 + 1)"
proof -
  have "nat \<bar>10 ^ MAX_STR_DIGITS - 1 + 1 :: int\<bar> = 10 ^ MAX_STR_DIGITS"
    by (simp add: nat_power_eq)
  then show ?thesis
    unfolding fits_def using length_str_nat_le [OF MAX_STR_DIGITS_pos] by simp
qed

lemma parse_digits_nines:
  "parse_digits acc (replicate k CHR ''9'') = Some ((acc + 1) * 10 ^ k - 1)"
proof (induction k arbitrary: acc)
  case 0
  show ?case by simp
next
  case (Suc k)
  have d: "is_digit CHR ''9''" "digit_val CHR ''9'' = 9"
    by code_simp+
  have "parse_digits acc (replicate (Suc k) CHR ''9'') =
      parse_digits (acc * 10 + 9) (replicate k CHR ''9'')"
    using d by simp
  also have "\<dots> = Some ((acc * 10 + 9 + 1) * 10 ^ k - 1)"
    by (rule Suc)
  also have "(acc * 10 + 9 + 1) * 10 ^ k = (acc + 1) * 10 ^ Suc k"
    by (simp add: algebra_simps)
  finally show ?case .
qed

lemma count_digits_nines: "count_digits (replicate k CHR ''9'') = k"
proof -
  have "is_digit CHR ''9''" by code_simp
  then show ?thesis by (simp add: count_digits_def)
qed

lemma int_strip_nines: "int_strip (replicate k CHR ''9'') = replicate k CHR ''9''"
proof -
  have n: "\<not> is_int_space CHR ''9''" by code_simp
  have "dropWhile is_int_space (replicate k CHR ''9'') = replicate k CHR ''9''"
    using n by (cases k) simp_all
  then show ?thesis
    by (simp add: int_strip_def)
qed

lemma py_int_nines: "py_int nines = Some (10 ^ MAX_STR_DIGITS - 1)"
proof -
  obtain m where m: "MAX_STR_DIGITS = Suc m"
    using MAX_STR_DIGITS_pos by (cases MAX_STR_DIGITS) simp_all
  have c: "CHR ''9'' \<noteq> CHR ''-''" "CHR ''9'' \<noteq> CHR ''+''" "is_digit CHR ''9''"
    by code_simp+
  have s: "int_strip nines = CHR ''9'' # replicate m CHR ''9''"
    unfolding nines_def int_strip_nines by (simp add: m)
  have "parse_nat (CHR ''9'' # replicate m CHR ''9'') =
      parse_digits 0 (CHR ''9'' # replicate m CHR ''9'')"
    using c(3) count_digits_nines [of "Suc m"]
    by (simp add: parse_nat_def m del: parse_digits.simps)
  also have "\<dots> = Some (10 ^ Suc m - 1)"
    using parse_digits_nines [of 0 "Suc m"] by (simp del: parse_digits.simps)
  finally have p: "parse_nat (CHR ''9'' # replicate m CHR ''9'') = Some (10 ^ Suc m - 1)" .
  have i: "int (10 ^ Suc m - 1) = 10 ^ Suc m - 1"
    by (simp add: of_nat_diff)
  show ?thesis
    unfolding py_int_def s m using c(1,2) p i by (simp del: power_Suc)
qed

text \<open>Every value that \<open>int\<close> returns can be formatted again.\<close>

lemma digit_val_le: "digit_val c \<le> 9"
  by (simp add: digit_val_def upt_rec split: option.splits)

lemma parse_digits_bound:
  "parse_digits acc s = Some n \<Longrightarrow> n < (acc + 1) * 10 ^ count_digits s"
proof (induction s arbitrary: acc)
  case Nil
  then show ?case by (simp add: count_digits_def)
next
  case (Cons c cs)
  show ?case
  proof (cases "is_digit c")
    case True
    then have "parse_digits (acc * 10 + digit_val c) cs = Some n"
      using Cons.prems by simp
    then have "n < (acc * 10 + digit_val c + 1) * 10 ^ count_digits cs"
      by (rule Cons.IH)
    also have "\<dots> \<le> ((acc + 1) * 10) * 10 ^ count_digits cs"
      using digit_val_le [of c] by (intro mult_le_mono1) simp
    also have "\<dots> = (acc + 1) * 10 ^ count_digits (c # cs)"
      using True by (simp add: count_digits_def algebra_simps)
    finally show ?thesis .
  next
    case False
    then have "parse_digits acc cs = Some n"
      using Cons.prems by (auto split: if_splits list.splits)
    then have "n < (acc + 1) * 10 ^ count_digits cs"
      by (rule Cons.IH)
    then show ?thesis
      using False by (simp add: count_digits_def)
  qed
qed

lemma parse_nat_fits: "parse_nat s = Some n \<Longrightarrow> length (str_nat n) \<le> MAX_STR_DIGITS"
proof -
  assume a: "parse_nat s = Some n"
  then have c: "count_digits s \<le> MAX_STR_DIGITS" and p: "parse_digits 0 s = Some n"
    by (auto simp: parse_nat_def split: list.splits if_splits)
  have "n < 10 ^ count_digits s"
    using parse_digits_bound [OF p] by simp
  also have "\<dots> \<le> 10 ^ MAX_STR_DIGITS"
    using c by (intro power_increasing) simp_all
  finally show ?thesis
    using length_str_nat_le [OF MAX_STR_DIGITS_pos] by blast
qed

lemma py_int_fits: "py_int s = Some n \<Longrightarrow> fits n"
  by (auto simp: py_int_def fits_def split: list.splits if_splits dest: parse_nat_fits)

lemma nines_not_Nil: "nines \<noteq> []"
  using MAX_STR_DIGITS_pos by (simp add: nines_def)

text \<open>
  A left track whose hardware label is its plain reference, with an index that can be
  formatted while its successor cannot: line 336 raises.
\<close>

lemma mark_left_overflow:
  assumes "hw_name t = norm_grp t @ '' '' @ str_int (in_num t)"
    and "fits (in_num t)" and "\<not> fits (in_num t + 1)"
  shows "mark_left t = Inl ValueError"
proof -
  have "hw_name t \<noteq> ''-''"
    unfolding assms(1) by (cases "norm_grp t") simp_all
  then have "relabel t (hw_name t) = Inl ValueError"
    using assms by (simp add: relabel_def clean_label_def py_str_def)
  then show ?thesis
    by (auto simp: mark_left_def split: sum.splits dest: rename_Inl relabel_Inl)
qed

lemma stereo_step_overflow:
  assumes "\<not> is_empty_routing (ts ! i)" and "\<not> stereo_R (ts ! i)"
    and "\<not> is_empty_routing (ts ! (i + 1))"
    and "is_stereo sm (ts ! i) (ts ! (i + 1))"
    and "mark_left (ts ! i) = Inl ValueError"
  shows "stereo_step sm ts i = Inl ValueError"
  using assms by (simp add: stereo_step_def Let_def)

lemma stereo_pass_first:
  assumes "1 < length ts" and "stereo_step sm ts 0 = Inl e"
  shows "stereo_pass sm ts = Inl e"
proof -
  have "[0 ..< length ts - 1] = 0 # [1 ..< length ts - 1]"
    using assms(1) upt_conv_Cons [of 0 "length ts - 1"] by (simp del: upt_Suc)
  then show ?thesis
    by (simp only: stereo_pass_def foldl_Cons step_on_Inr assms(2) foldl_step_on_Inl)
qed

lemma is_stereo_X: "name t1 = ''X L'' \<Longrightarrow> name t2 = ''X R'' \<Longrightarrow> is_stereo sm t1 t2"
proof -
  assume a: "name t1 = ''X L''" "name t2 = ''X R''"
  have "endswith ''X L'' '' L''" "replace '' L'' '' R'' ''X L'' = ''X R''"
    by code_simp+
  then show ?thesis
    by (simp add: is_stereo_def a)
qed

text \<open>The tracks of a direct channel slot (lines 211 to 228 and 264 to 280).\<close>

lemma resolve_slot_hw_name:
  "hw_name (resolve_slot cfg r sh ch s) = hw_str (slot_described cfg r sh ch s)"
  by (simp add: resolve_slot_def Let_def)

lemma describe_hw_direct:
  assumes "NAME_MODE cfg = ''CH''" and "is_direct_ch d" and "ch_direct_name d \<noteq> []"
  shows "d_name (describe_hw cfg sh ch d) = ch_direct_name d"
    and "hw_str (describe_hw cfg sh ch d) = hw_grp d @ '' '' @ str_int (hw_in d)"
  using assms by (simp_all add: describe_hw_def Let_def)

lemma slot_described_direct:
  assumes "NAME_MODE cfg = ''CH''" and "\<not> empty_routing cfg r s"
    and "hw_grp (slot_direct cfg r s) \<notin> set [''MAIN'', ''BUS'', ''MTX'']"
    and "is_direct_ch (slot_direct cfg r s)" and "ch_direct_name (slot_direct cfg r s) \<noteq> []"
  shows "d_name (slot_described cfg r sh ch s) = ch_direct_name (slot_direct cfg r s)"
    and "hw_str (slot_described cfg r sh ch s) =
         hw_grp (slot_direct cfg r s) @ '' '' @ str_int (hw_in (slot_direct cfg r s))"
  using assms(2,3) describe_hw_direct [OF assms(1,4,5)]
  by (simp_all add: slot_described_def describe_def)

lemma crash_addrs:
  "out_addr default_config 1 ''grp'' = ''/io/out/USB/1/grp''"
  "out_addr default_config 1 ''in'' = ''/io/out/USB/1/in''"
  "out_addr default_config 2 ''grp'' = ''/io/out/USB/2/grp''"
  "out_addr default_config 2 ''in'' = ''/io/out/USB/2/in''"
  "strip_addr (lower ''CH'') (str_int 1) f = ''/ch/1/'' @ f"
  "strip_addr (lower ''CH'') (str_int 2) f = ''/ch/2/'' @ f"
  "strip_addr (lower ''CH'') (fmt02d 2) f = ''/ch/02/'' @ f"
proof -
  have s: "str_int 1 = ''1''" "str_int 2 = ''2''" "fmt02d 2 = ''02''" "lower ''CH'' = ''ch''"
    by code_simp+
  show "out_addr default_config 1 ''grp'' = ''/io/out/USB/1/grp''"
    "out_addr default_config 1 ''in'' = ''/io/out/USB/1/in''"
    "out_addr default_config 2 ''grp'' = ''/io/out/USB/2/grp''"
    "out_addr default_config 2 ''in'' = ''/io/out/USB/2/in''"
    "strip_addr (lower ''CH'') (str_int 1) f = ''/ch/1/'' @ f"
    "strip_addr (lower ''CH'') (str_int 2) f = ''/ch/2/'' @ f"
    "strip_addr (lower ''CH'') (fmt02d 2) f = ''/ch/02/'' @ f"
    by (simp_all add: out_addr_def strip_addr_def default_config_def s)
qed

lemma crash_values:
  "norm (strip ''CH'') = ''CH''" "norm ''LCL'' = ''LCL''" "norm [] = []"
  "py_int ''1'' = Some 1" "py_int ''2'' = Some 2"
  "strip ''X L'' = ''X L''" "strip ''X R'' = ''X R''"
  by code_simp+

text \<open>
  Replies in which slots 1 and 2 are fed from the channel strips 1 and 2, named
  \<open>X L\<close> and \<open>X R\<close>, strip 1 is patched from the local input numbered with
  \<open>MAX_STR_DIGITS\<close> nines and strip 2 gives no patch: the two tracks are paired by
  their names, and rewriting the hardware label of the left one raises.
\<close>

lemma crash_slot1:
  assumes "getv r ''/io/out/USB/1/grp'' = Some ''CH''"
    and "getv r ''/io/out/USB/1/in'' = Some ''1''"
    and "getv r ''/ch/1/name'' = Some ''X L''"
    and "getv r ''/ch/1/in/conn/grp'' = Some ''LCL''"
    and "getv r ''/ch/1/in/conn/in'' = Some nines"
  shows "\<not> is_empty_routing (resolve_slot default_config r sh ch 1)"
    and "\<not> stereo_R (resolve_slot default_config r sh ch 1)"
    and "name (resolve_slot default_config r sh ch 1) = ''X L''"
    and "mark_left (resolve_slot default_config r sh ch 1) = Inl ValueError"
proof -
  let ?t = "resolve_slot default_config r sh ch 1"
  have u: "u_grp_of default_config r 1 = ''CH''" "u_in_of default_config r 1 = 1"
    by (simp_all add: u_grp_of_def u_in_of_def crash_addrs assms por_def crash_values)
  have e: "\<not> empty_routing default_config r 1"
    by (simp add: empty_routing_def u)
  have g: "strip_field r (lower ''CH'') 1 ''in/conn/grp'' [] = ''LCL''"
    and i: "strip_field r (lower ''CH'') 1 ''in/conn/in'' [] = nines"
    and n: "strip_name r (lower ''CH'') 1 = ''X L''"
    using nines_not_Nil
    by (simp_all add: strip_field_def strip_name_def crash_addrs assms por_def crash_values
          Let_def)
  have d: "is_direct_ch (slot_direct default_config r 1)"
    "ch_direct_name (slot_direct default_config r 1) = ''X L''"
    "hw_grp (slot_direct default_config r 1) = ''LCL''"
    "hw_in (slot_direct default_config r 1) = 10 ^ MAX_STR_DIGITS - 1"
    using nines_not_Nil
    by (simp_all add: slot_direct_def u resolve_direct_def Let_def g i n crash_values
          py_int_nines)
  have m: "NAME_MODE default_config = ''CH''"
    by (simp add: default_config_def)
  have ds: "d_name (slot_described default_config r sh ch 1) = ''X L''"
    "hw_str (slot_described default_config r sh ch 1) =
       ''LCL'' @ '' '' @ str_int (10 ^ MAX_STR_DIGITS - 1)"
    using slot_described_direct [OF m e, of sh ch] d by simp_all
  show "\<not> is_empty_routing ?t" "\<not> stereo_R ?t" "name ?t = ''X L''"
    by (simp_all add: resolve_slot_fields e ds)
  have "hw_name ?t = norm_grp ?t @ '' '' @ str_int (in_num ?t)"
    by (simp only: resolve_slot_hw_name resolve_slot_fields ds d)
  moreover have "fits (in_num ?t)" "\<not> fits (in_num ?t + 1)"
    by (simp_all only: resolve_slot_fields d fits_nines not_fits_succ not_False_eq_True)
  ultimately show "mark_left ?t = Inl ValueError"
    by (rule mark_left_overflow)
qed

lemma crash_slot2:
  assumes "getv r ''/io/out/USB/2/grp'' = Some ''CH''"
    and "getv r ''/io/out/USB/2/in'' = Some ''2''"
    and "getv r ''/ch/2/name'' = Some ''X R''"
    and "getv r ''/ch/2/in/conn/grp'' = None"
    and "getv r ''/ch/02/in/conn/grp'' = None"
  shows "\<not> is_empty_routing (resolve_slot default_config r sh ch 2)"
    and "name (resolve_slot default_config r sh ch 2) = ''X R''"
proof -
  let ?t = "resolve_slot default_config r sh ch 2"
  have u: "u_grp_of default_config r 2 = ''CH''" "u_in_of default_config r 2 = 2"
    by (simp_all add: u_grp_of_def u_in_of_def crash_addrs assms por_def crash_values)
  have e: "\<not> empty_routing default_config r 2"
    by (simp add: empty_routing_def u)
  have g: "strip_field r (lower ''CH'') 2 ''in/conn/grp'' [] = []"
    and n: "strip_name r (lower ''CH'') 2 = ''X R''"
    by (simp_all add: strip_field_def strip_name_def crash_addrs assms por_def crash_values
          Let_def)
  have d: "is_direct_ch (slot_direct default_config r 2)"
    "ch_direct_name (slot_direct default_config r 2) = ''X R''"
    "hw_grp (slot_direct default_config r 2) = ''CH''"
    by (simp_all add: slot_direct_def u resolve_direct_def Let_def g n crash_values)
  have m: "NAME_MODE default_config = ''CH''"
    by (simp add: default_config_def)
  have ds: "d_name (slot_described default_config r sh ch 2) = ''X R''"
    using slot_described_direct(1) [OF m e, of sh ch] d by simp
  show "\<not> is_empty_routing ?t" "name ?t = ''X R''"
    by (simp_all add: resolve_slot_fields e ds)
qed

lemma resolve_tracks_overflow:
  assumes "getv r ''/io/out/USB/1/grp'' = Some ''CH''"
    and "getv r ''/io/out/USB/1/in'' = Some ''1''"
    and "getv r ''/ch/1/name'' = Some ''X L''"
    and "getv r ''/ch/1/in/conn/grp'' = Some ''LCL''"
    and "getv r ''/ch/1/in/conn/in'' = Some nines"
    and "getv r ''/io/out/USB/2/grp'' = Some ''CH''"
    and "getv r ''/io/out/USB/2/in'' = Some ''2''"
    and "getv r ''/ch/2/name'' = Some ''X R''"
    and "getv r ''/ch/2/in/conn/grp'' = None"
    and "getv r ''/ch/02/in/conn/grp'' = None"
  shows "resolve_tracks default_config refs r = Inl ValueError"
proof -
  let ?ts = "slot_tracks default_config refs r"
  let ?rs = "resolve_slot default_config r (gather_sources r refs) (gather_channels r)"
  have c: "OUT_COUNT default_config = 48"
    by (simp add: default_config_def)
  have t0: "?ts ! 0 = ?rs 1"
    using nth_slot_tracks [of 0 default_config refs r] by (simp add: c)
  have t1: "?ts ! (0 + 1) = ?rs 2"
    using nth_slot_tracks [of 1 default_config refs r] by (simp add: c)
  have a1: "\<not> is_empty_routing (?ts ! 0)"
    unfolding t0 by (rule crash_slot1(1) [OF assms(1-5)])
  have a2: "\<not> stereo_R (?ts ! 0)"
    unfolding t0 by (rule crash_slot1(2) [OF assms(1-5)])
  have a3: "mark_left (?ts ! 0) = Inl ValueError"
    unfolding t0 by (rule crash_slot1(4) [OF assms(1-5)])
  have b: "\<not> is_empty_routing (?ts ! (0 + 1))"
    unfolding t1 by (rule crash_slot2(1) [OF assms(6-10)])
  have s: "is_stereo (src_modes_of refs r) (?ts ! 0) (?ts ! (0 + 1))"
    unfolding t0 t1
    by (rule is_stereo_X) (rule crash_slot1(3) [OF assms(1-5)], rule crash_slot2(2) [OF assms(6-10)])
  have "stereo_step (src_modes_of refs r) ?ts 0 = Inl ValueError"
    by (rule stereo_step_overflow [OF a1 a2 b s a3])
  moreover have "1 < length ?ts"
    by (simp add: c)
  ultimately show ?thesis
    unfolding resolve_tracks_def by (intro stereo_pass_first)
qed

lemma fetch_wing_raises:
  "fetch_replies cfg w = Inr (refs, r) \<Longrightarrow> resolve_tracks cfg refs r = Inl e \<Longrightarrow>
   fetch_wing cfg w = Inl e"
  by (simp add: fetch_wing_def)

text \<open>
  Claim C9 says that a malformed reply value is never fatal and that the run still
  emits a complete track list. On the device \<open>r_crash\<close>, with the default
  configuration and whatever the references collected, the run emits no track list:
  the stereo pairing pass raises \<open>ValueError\<close>, which nothing catches. The reply to
  \<open>/ch/1/in/conn/in\<close> is a number of \<open>MAX_STR_DIGITS\<close> digits, which \<open>int\<close> accepts;
  the pass pairs slots 1 and 2 by their names and formats the successor of that
  number, which has one digit more.
\<close>

theorem malformed_index_fatal:
  "resolve_tracks default_config refs r_crash = Inl ValueError"
proof -
  have "getv r_crash ''/io/out/USB/1/grp'' = Some ''CH''"
    "getv r_crash ''/io/out/USB/1/in'' = Some ''1''"
    "getv r_crash ''/ch/1/name'' = Some ''X L''"
    "getv r_crash ''/ch/1/in/conn/grp'' = Some ''LCL''"
    "getv r_crash ''/ch/1/in/conn/in'' = Some nines"
    "getv r_crash ''/io/out/USB/2/grp'' = Some ''CH''"
    "getv r_crash ''/io/out/USB/2/in'' = Some ''2''"
    "getv r_crash ''/ch/2/name'' = Some ''X R''"
    "getv r_crash ''/ch/2/in/conn/grp'' = None"
    "getv r_crash ''/ch/02/in/conn/grp'' = None"
    by (simp_all add: r_crash_def getv_def)
  then show ?thesis
    by (rule resolve_tracks_overflow)
qed

section \<open>Properties of the probe\<close>

lemma getv_query:
  assumes "query_reliable tr addrs n = Inr r"
  shows "getv r a \<noteq> None \<longleftrightarrow> a \<in> set addrs \<and> a \<in> fst ` set (query_log tr addrs n)"
  using first_reply_None [of "query_log tr addrs n" a]
  by (auto simp: query_reliable_Inr [OF assms] getv_def)

text \<open>
  Claim C8 as stated: the probe selects, for each namespace, exactly the format the
  device answered in. The device \<open>net_ch3\<close> answers the three-digit channel name
  probe and nothing else; the format selected for the channel namespace is the unpadded
  one.
\<close>

theorem probe_selection_counterexample:
  "map fst (query_log net_ch3 probe_addrs 4) = [''/ch/001/name''] \<and>
   probe_run net_ch3 = Inr \<lparr>ch_fmt = Unpadded, src_fmt = Unpadded,
                             src_route_grp = ''in/grp'', src_route_idx = ''in/in''\<rparr>"
  by code_simp

text \<open>
  Claim C8, amended. For the channel namespace the probe selects the two-digit format
  when a reply to \<open>/ch/01/name\<close> was handled and the unpadded format otherwise (a reply
  to the three-digit probe of that namespace is not looked at). For the source
  namespace it selects the three-digit format when \<open>/src/001/name\<close> was answered, else
  the two-digit format when \<open>/src/01/name\<close> was answered, else the unpadded format.
  So a namespace without any reply gets the unpadded format, and a device that answers
  only the two-digit channel name probe gets the two-digit channel format.
\<close>

theorem probe_selection:
  assumes "probe_run tr = Inr p"
  shows "ch_fmt p = (if ''/ch/01/name'' \<in> fst ` set (query_log tr probe_addrs 4)
                     then Pad2 else Unpadded) \<and>
         src_fmt p = (if ''/src/001/name'' \<in> fst ` set (query_log tr probe_addrs 4) then Pad3
                      else if ''/src/01/name'' \<in> fst ` set (query_log tr probe_addrs 4) then Pad2
                      else Unpadded)"
proof -
  obtain r where q: "query_reliable tr probe_addrs 4 = Inr r" and p: "p = probe r"
    using assms by (auto simp: probe_run_def split: sum.splits)
  have m: "''/ch/01/name'' \<in> set probe_addrs" "''/src/001/name'' \<in> set probe_addrs"
      "''/src/01/name'' \<in> set probe_addrs"
    by (simp_all add: probe_addrs_def)
  have c: "(getv r ''/ch/01/name'' \<noteq> None) = (''/ch/01/name'' \<in> fst ` set (query_log tr probe_addrs 4))"
    "(getv r ''/src/001/name'' \<noteq> None) = (''/src/001/name'' \<in> fst ` set (query_log tr probe_addrs 4))"
    "(getv r ''/src/01/name'' \<noteq> None) = (''/src/01/name'' \<in> fst ` set (query_log tr probe_addrs 4))"
    using m getv_query [OF q] by blast+
  show ?thesis
    unfolding p probe_def Let_def c by simp
qed

theorem probe_selection_witness:
  "probe_run net_ch2 = Inr \<lparr>ch_fmt = Pad2, src_fmt = Unpadded,
                             src_route_grp = ''in/grp'', src_route_idx = ''in/in''\<rparr> \<and>
   map fst (query_log net_ch2 probe_addrs 4) = [''/ch/01/name'']"
proof -
  have l: "map fst (query_log net_ch2 probe_addrs 4) = [''/ch/01/name'']"
    by code_simp
  have q: "probe_run net_ch2 = Inr (probe (res (query_run net_ch2 probe_addrs 4)))"
    by (simp add: probe_run_def query_reliable_def probe_addrs_def net_ch2_def)
  have s: "fst ` set (query_log net_ch2 probe_addrs 4) = {''/ch/01/name''}"
    using l by (metis image_set list.simps(15) set_empty2 empty_set)
  have r: "src_route_grp (probe (res (query_run net_ch2 probe_addrs 4))) = ''in/grp'' \<and>
           src_route_idx (probe (res (query_run net_ch2 probe_addrs 4))) = ''in/in''"
    by code_simp
  have "ch_fmt (probe (res (query_run net_ch2 probe_addrs 4))) = Pad2 \<and>
        src_fmt (probe (res (query_run net_ch2 probe_addrs 4))) = Unpadded"
    using probe_selection [OF q] unfolding s by simp
  then have "probe (res (query_run net_ch2 probe_addrs 4)) =
     \<lparr>ch_fmt = Pad2, src_fmt = Unpadded, src_route_grp = ''in/grp'', src_route_idx = ''in/in''\<rparr>"
    using r by (cases "probe (res (query_run net_ch2 probe_addrs 4))") simp
  then show ?thesis
    using q l by simp
qed

end
